theory Spec2Isabelle
  imports Main "HOL-Library.Monad_Syntax"
begin

section \<open>Data model of \<open>chess_game.py\<close>\<close>

text \<open>
  The rules engine of \<open>ChessGame\<close>: the piece-move generators, the check detector, the
  speculative probe \<open>move_puts_king_in_check\<close> and the executor \<open>make_move\<close>.
  Drawing and menus are left out; of the event loop \<open>run\<close> only the two ways it changes
  the game are kept: the Start button and a call of \<open>make_move\<close> with a destination taken
  from \<open>get_valid_moves\<close>.

  A \<open>Piece\<close> is a mutable Python object that the board cells, the caller's variables and the
  move history all refer to. The model keeps an object store: a reference is a natural
  number, \<open>heap\<close> maps every reference to the fields of its object, and \<open>next_ref\<close> is the
  reference the next \<open>Piece(...)\<close> constructor call returns.
\<close>

datatype PieceType = PAWN | ROOK | KNIGHT | BISHOP | QUEEN | KING

datatype PieceColor = WHITE | BLACK

record Piece =
  ptype :: PieceType
  color :: PieceColor
  row :: int
  col :: int
  has_moved :: bool

type_synonym ref = nat

type_synonym square = "int \<times> int"

text \<open>One dictionary appended to \<open>move_history\<close>: keys 'piece', 'from', 'to', 'captured'.\<close>

record MoveEntry =
  m_piece :: ref
  m_from :: square
  m_to :: square
  m_captured :: "ref option"

text \<open>
  The attributes of \<open>ChessGame\<close> that the rules engine reads or writes. \<open>board\<close> is the
  8 by 8 list of lists; a cell is \<open>None\<close> or a reference to a piece. It is modelled as a map
  from the normalised index pair (both components in 0..7) to the cell; every access goes
  through \<open>py_idx\<close>, \<open>board_get\<close> and \<open>board_set\<close> below, or sits behind the source's own
  range guard.
\<close>

record ChessGame =
  board :: "square \<Rightarrow> ref option"
  heap :: "ref \<Rightarrow> Piece"
  next_ref :: ref
  turn :: PieceColor
  white_king_moved :: bool
  black_king_moved :: bool
  white_rook_a_moved :: bool
  white_rook_h_moved :: bool
  black_rook_a_moved :: bool
  black_rook_h_moved :: bool
  en_passant_target :: "square option"
  move_history :: "MoveEntry list"
  selected_piece :: "ref option"
  valid_moves :: "square list"

section \<open>Indexing and the object store\<close>

text \<open>
  Python's index into a list of length 8: 0..7 as they are, -8..-1 counted from the end,
  anything else raises IndexError. A raised exception is the value \<open>None\<close> of the result;
  the state left behind at the raise is not modelled.
\<close>

definition py_idx :: "int \<Rightarrow> int option" where
  "py_idx i = (if 0 \<le> i \<and> i < 8 then Some i
               else if - 8 \<le> i \<and> i < 0 then Some (i + 8)
               else None)"

text \<open>\<open>self.board[r][c]\<close> as an expression.\<close>

definition board_get :: "ChessGame \<Rightarrow> int \<Rightarrow> int \<Rightarrow> ref option option" where
  "board_get s r c = do { i \<leftarrow> py_idx r; j \<leftarrow> py_idx c; Some (board s (i, j)) }"

text \<open>\<open>self.board[r][c] = v\<close>.\<close>

definition board_set :: "ChessGame \<Rightarrow> int \<Rightarrow> int \<Rightarrow> ref option \<Rightarrow> ChessGame option" where
  "board_set s r c v =
     do { i \<leftarrow> py_idx r; j \<leftarrow> py_idx c; Some (s\<lparr>board := (board s)((i, j) := v)\<rparr>) }"

text \<open>\<open>piece.row, piece.col = r, c\<close> on the object behind reference \<open>p\<close>.\<close>

definition set_pos :: "ChessGame \<Rightarrow> ref \<Rightarrow> int \<Rightarrow> int \<Rightarrow> ChessGame" where
  "set_pos s p r c = s\<lparr>heap := (heap s)(p := (heap s p)\<lparr>row := r, col := c\<rparr>)\<rparr>"

text \<open>\<open>Piece(piece_type, color, row, col)\<close>: a fresh object with \<open>has_moved = False\<close>.\<close>

definition new_Piece ::
  "ChessGame \<Rightarrow> PieceType \<Rightarrow> PieceColor \<Rightarrow> int \<Rightarrow> int \<Rightarrow> ref \<times> ChessGame" where
  "new_Piece s t cl r c =
     (next_ref s,
      s\<lparr>heap := (heap s)(next_ref s :=
             \<lparr>ptype = t, color = cl, row = r, col = c, has_moved = False\<rparr>),
        next_ref := Suc (next_ref s)\<rparr>)"

section \<open>Move generators\<close>

text \<open>
  The inner loop of \<open>get_rook_moves\<close> and \<open>get_bishop_moves\<close> (the same text in both):
  \<open>for i in range(1, 8)\<close> along one direction, breaking at the edge, after an enemy piece,
  and before a friendly one.
\<close>

fun ray :: "ChessGame \<Rightarrow> Piece \<Rightarrow> int \<times> int \<Rightarrow> int list \<Rightarrow> square list" where
  "ray s piece (dr, dc) [] = []"
| "ray s piece (dr, dc) (i # rest) =
     (let new_row = row piece + i * dr; new_col = col piece + i * dc in
      if \<not> (0 \<le> new_row \<and> new_row < 8 \<and> 0 \<le> new_col \<and> new_col < 8) then []
      else (case board s (new_row, new_col) of
              None \<Rightarrow> (new_row, new_col) # ray s piece (dr, dc) rest
            | Some target \<Rightarrow>
                if color (heap s target) \<noteq> color piece then [(new_row, new_col)] else []))"

definition slide :: "ChessGame \<Rightarrow> Piece \<Rightarrow> (int \<times> int) list \<Rightarrow> square list" where
  "slide s piece directions = concat (map (\<lambda>d. ray s piece d [1..7]) directions)"

definition get_rook_moves :: "ChessGame \<Rightarrow> ref \<Rightarrow> square list" where
  "get_rook_moves s p = slide s (heap s p) [(0, 1), (0, - 1), (1, 0), (- 1, 0)]"

definition get_bishop_moves :: "ChessGame \<Rightarrow> ref \<Rightarrow> square list" where
  "get_bishop_moves s p = slide s (heap s p) [(1, 1), (1, - 1), (- 1, 1), (- 1, - 1)]"

definition get_queen_moves :: "ChessGame \<Rightarrow> ref \<Rightarrow> square list" where
  "get_queen_moves s p = get_rook_moves s p @ get_bishop_moves s p"

text \<open>
  The loop body shared by \<open>get_knight_moves\<close> and the first loop of \<open>get_king_moves\<close>: one
  offset gives its square when that is on the board and empty or held by the other colour.
\<close>

definition offset_move :: "ChessGame \<Rightarrow> Piece \<Rightarrow> int \<times> int \<Rightarrow> square list" where
  "offset_move s piece d =
     (let new_row = row piece + fst d; new_col = col piece + snd d in
      if 0 \<le> new_row \<and> new_row < 8 \<and> 0 \<le> new_col \<and> new_col < 8 then
        (case board s (new_row, new_col) of
           None \<Rightarrow> [(new_row, new_col)]
         | Some target \<Rightarrow>
             if color (heap s target) \<noteq> color piece then [(new_row, new_col)] else [])
      else [])"

definition knight_moves :: "(int \<times> int) list" where
  "knight_moves =
     [(- 2, - 1), (- 2, 1), (- 1, - 2), (- 1, 2), (1, - 2), (1, 2), (2, - 1), (2, 1)]"

definition get_knight_moves :: "ChessGame \<Rightarrow> ref \<Rightarrow> square list" where
  "get_knight_moves s p = concat (map (offset_move s (heap s p)) knight_moves)"

definition king_moves :: "(int \<times> int) list" where
  "king_moves =
     [(- 1, - 1), (- 1, 0), (- 1, 1), (0, - 1), (0, 1), (1, - 1), (1, 0), (1, 1)]"

text \<open>
  The cell test of the castling conditions:
  \<open>self.board[r][c] and self.board[r][c].type == PieceType.ROOK and self.board[r][c].color == cl\<close>.
\<close>

definition rook_at :: "ChessGame \<Rightarrow> square \<Rightarrow> PieceColor \<Rightarrow> bool" where
  "rook_at s sq cl =
     (case board s sq of
        None \<Rightarrow> False
      | Some t \<Rightarrow> ptype (heap s t) = ROOK \<and> color (heap s t) = cl)"

definition castling_moves :: "ChessGame \<Rightarrow> Piece \<Rightarrow> square list" where
  "castling_moves s piece =
     (if \<not> has_moved piece then
        (if color piece = WHITE then
           (if \<not> white_king_moved s \<and> \<not> white_rook_h_moved s \<and>
               board s (7, 5) = None \<and> board s (7, 6) = None \<and> rook_at s (7, 7) WHITE
            then [(7, 6)] else []) @
           (if \<not> white_king_moved s \<and> \<not> white_rook_a_moved s \<and>
               board s (7, 1) = None \<and> board s (7, 2) = None \<and> board s (7, 3) = None \<and>
               rook_at s (7, 0) WHITE
            then [(7, 2)] else [])
         else
           (if \<not> black_king_moved s \<and> \<not> black_rook_h_moved s \<and>
               board s (0, 5) = None \<and> board s (0, 6) = None \<and> rook_at s (0, 7) BLACK
            then [(0, 6)] else []) @
           (if \<not> black_king_moved s \<and> \<not> black_rook_a_moved s \<and>
               board s (0, 1) = None \<and> board s (0, 2) = None \<and> board s (0, 3) = None \<and>
               rook_at s (0, 0) BLACK
            then [(0, 2)] else []))
      else [])"

definition get_king_moves :: "ChessGame \<Rightarrow> ref \<Rightarrow> square list" where
  "get_king_moves s p =
     concat (map (offset_move s (heap s p)) king_moves) @ castling_moves s (heap s p)"

text \<open>
  \<open>get_pawn_moves\<close>. The forward test indexes \<open>self.board[new_row][piece.col]\<close> with the
  piece's own column, which no guard bounds: the result is an option.
\<close>

definition pawn_capture :: "ChessGame \<Rightarrow> Piece \<Rightarrow> int \<Rightarrow> int \<Rightarrow> square list" where
  "pawn_capture s piece direction c =
     (if 0 \<le> c \<and> c < 8 then
        (let new_row = row piece + direction in
         if 0 \<le> new_row \<and> new_row < 8 then
           (case board s (new_row, c) of
              None \<Rightarrow> []
            | Some target \<Rightarrow>
                if color (heap s target) \<noteq> color piece then [(new_row, c)] else [])
         else [])
      else [])"

definition pawn_en_passant :: "ChessGame \<Rightarrow> Piece \<Rightarrow> int \<Rightarrow> square list" where
  "pawn_en_passant s piece direction =
     (case en_passant_target s of
        None \<Rightarrow> []
      | Some (ep_row, ep_col) \<Rightarrow>
          if row piece = ep_row \<and> \<bar>col piece - ep_col\<bar> = 1 then
            (let capture_row = row piece + direction in
             if capture_row = ep_row - direction then [(capture_row, ep_col)] else [])
          else [])"

definition pawn_forward :: "ChessGame \<Rightarrow> Piece \<Rightarrow> int \<Rightarrow> square list option" where
  "pawn_forward s piece direction =
     (let new_row = row piece + direction in
      if 0 \<le> new_row \<and> new_row < 8 then
        do {
          ahead \<leftarrow> board_get s new_row (col piece);
          if ahead = None then
            (if (color piece = WHITE \<and> row piece = 6) \<or> (color piece = BLACK \<and> row piece = 1)
             then
               do {
                 let two_rows_ahead = row piece + 2 * direction;
                 ahead2 \<leftarrow> board_get s two_rows_ahead (col piece);
                 Some ((new_row, col piece) #
                       (if ahead2 = None then [(two_rows_ahead, col piece)] else []))
               }
             else Some [(new_row, col piece)])
          else Some []
        }
      else Some [])"

definition get_pawn_moves :: "ChessGame \<Rightarrow> ref \<Rightarrow> square list option" where
  "get_pawn_moves s p =
     (let piece = heap s p;
          direction = (if color piece = WHITE then - 1 else 1) in
      do {
        forward \<leftarrow> pawn_forward s piece direction;
        Some (forward
              @ concat (map (pawn_capture s piece direction) [col piece - 1, col piece + 1])
              @ pawn_en_passant s piece direction)
      })"

section \<open>Check detection\<close>

text \<open>
  \<open>get_valid_moves_for_opponent\<close>: the attack set of one piece. The pawn branch has its own
  direction; the king branch is the slice \<open>[0:8]\<close> of \<open>get_king_moves\<close>.
\<close>

definition pawn_attack :: "Piece \<Rightarrow> int \<Rightarrow> int \<Rightarrow> square list" where
  "pawn_attack piece direction dc =
     (let new_row = row piece + direction; new_col = col piece + dc in
      if 0 \<le> new_row \<and> new_row < 8 \<and> 0 \<le> new_col \<and> new_col < 8
      then [(new_row, new_col)] else [])"

definition get_valid_moves_for_opponent :: "ChessGame \<Rightarrow> ref \<Rightarrow> square list" where
  "get_valid_moves_for_opponent s p =
     (let piece = heap s p in
      case ptype piece of
        PAWN \<Rightarrow>
          (let direction = (if color piece = WHITE then 1 else - 1) in
           concat (map (pawn_attack piece direction) [- 1, 1]))
      | ROOK \<Rightarrow> get_rook_moves s p
      | KNIGHT \<Rightarrow> get_knight_moves s p
      | BISHOP \<Rightarrow> get_bishop_moves s p
      | QUEEN \<Rightarrow> get_queen_moves s p
      | KING \<Rightarrow> take 8 (get_king_moves s p))"

text \<open>The 64 squares in the order of \<open>for row in range(8): for col in range(8)\<close>.\<close>

definition all_squares :: "square list" where
  "all_squares = concat (map (\<lambda>r. map (\<lambda>c. (r, c)) [0..7]) [0..7])"

definition king_here :: "ChessGame \<Rightarrow> PieceColor \<Rightarrow> square \<Rightarrow> bool" where
  "king_here s cl sq =
     (case board s sq of
        None \<Rightarrow> False
      | Some p \<Rightarrow> ptype (heap s p) = KING \<and> color (heap s p) = cl)"

text \<open>The first loop of \<open>is_king_in_check\<close>: the first king of the colour in scan order.\<close>

definition find_king :: "ChessGame \<Rightarrow> PieceColor \<Rightarrow> square option" where
  "find_king s cl = find (king_here s cl) all_squares"

text \<open>
  The second loop: each piece of the opponent has its recorded position overwritten with
  the scanned cell, its attack set computed, and its recorded position written back; the
  loop returns at the first attack set that holds the king's square. Every index of the
  two loops comes from \<open>range(8)\<close>, and the generators called here index the board
  behind a range guard or with constants, so nothing in \<open>is_king_in_check\<close> can raise:
  its result is a plain pair of the answer and the state.
\<close>

fun scan_opponents ::
  "ChessGame \<Rightarrow> PieceColor \<Rightarrow> square \<Rightarrow> square list \<Rightarrow> bool \<times> ChessGame" where
  "scan_opponents s opponent_color king_pos [] = (False, s)"
| "scan_opponents s opponent_color king_pos ((r, c) # rest) =
     (case board s (r, c) of
        None \<Rightarrow> scan_opponents s opponent_color king_pos rest
      | Some p \<Rightarrow>
          if color (heap s p) = opponent_color then
            (let original_row = row (heap s p);
                 original_col = col (heap s p);
                 s1 = set_pos s p r c;
                 moves = get_valid_moves_for_opponent s1 p;
                 s2 = set_pos s1 p original_row original_col in
             if king_pos \<in> set moves then (True, s2)
             else scan_opponents s2 opponent_color king_pos rest)
          else scan_opponents s opponent_color king_pos rest)"

definition is_king_in_check :: "ChessGame \<Rightarrow> PieceColor \<Rightarrow> bool \<times> ChessGame" where
  "is_king_in_check s cl =
     (case find_king s cl of
        None \<Rightarrow> (False, s)
      | Some king_pos \<Rightarrow>
          scan_opponents s (if cl = WHITE then BLACK else WHITE) king_pos all_squares)"

section \<open>The speculative probe and the legal moves\<close>

definition move_puts_king_in_check ::
  "ChessGame \<Rightarrow> ref \<Rightarrow> int \<Rightarrow> int \<Rightarrow> (bool \<times> ChessGame) option" where
  "move_puts_king_in_check s p dest_row dest_col =
     do {
       original_piece \<leftarrow> board_get s dest_row dest_col;
       let original_row = row (heap s p);
       let original_col = col (heap s p);
       s1 \<leftarrow> board_set s dest_row dest_col (Some p);
       s2 \<leftarrow> board_set s1 (row (heap s1 p)) (col (heap s1 p)) None;
       let s3 = set_pos s2 p dest_row dest_col;
       let (in_check, s4) = is_king_in_check s3 (color (heap s3 p));
       s5 \<leftarrow> board_set s4 original_row original_col (Some p);
       s6 \<leftarrow> board_set s5 dest_row dest_col original_piece;
       let s7 = set_pos s6 p original_row original_col;
       Some (in_check, s7)
     }"

text \<open>The \<open>if\<close>/\<open>elif\<close> chain at the head of \<open>get_valid_moves\<close>.\<close>

definition piece_moves :: "ChessGame \<Rightarrow> ref \<Rightarrow> square list option" where
  "piece_moves s p =
     (case ptype (heap s p) of
        PAWN \<Rightarrow> get_pawn_moves s p
      | ROOK \<Rightarrow> Some (get_rook_moves s p)
      | KNIGHT \<Rightarrow> Some (get_knight_moves s p)
      | BISHOP \<Rightarrow> Some (get_bishop_moves s p)
      | QUEEN \<Rightarrow> Some (get_queen_moves s p)
      | KING \<Rightarrow> Some (get_king_moves s p))"

text \<open>The filter loop: one probe for each candidate, in order, on the state the last left.\<close>

fun filter_moves ::
  "ChessGame \<Rightarrow> ref \<Rightarrow> square list \<Rightarrow> (square list \<times> ChessGame) option" where
  "filter_moves s p [] = Some ([], s)"
| "filter_moves s p (move # rest) =
     do {
       (in_check, s1) \<leftarrow> move_puts_king_in_check s p (fst move) (snd move);
       (kept, s2) \<leftarrow> filter_moves s1 p rest;
       Some (if \<not> in_check then move # kept else kept, s2)
     }"

definition get_valid_moves :: "ChessGame \<Rightarrow> ref \<Rightarrow> (square list \<times> ChessGame) option" where
  "get_valid_moves s p = do { moves \<leftarrow> piece_moves s p; filter_moves s p moves }"

section \<open>Applying a move\<close>

text \<open>The castling block of \<open>make_move\<close>; \<open>rook.col = ...\<close> on an empty corner raises.\<close>

definition castle_rook :: "ChessGame \<Rightarrow> ref \<Rightarrow> int \<Rightarrow> ChessGame option" where
  "castle_rook s p dest_col =
     (let piece = heap s p;
          rook_start_col = (if dest_col > col piece then 7 else 0);
          rook_dest_col = (if dest_col > col piece then dest_col - 1 else dest_col + 1) in
      do {
        rook \<leftarrow> board_get s (row piece) rook_start_col;
        s1 \<leftarrow> board_set s (row piece) rook_dest_col rook;
        s2 \<leftarrow> board_set s1 (row piece) rook_start_col None;
        (case rook of
           None \<Rightarrow> None
         | Some rk \<Rightarrow>
             Some (s2\<lparr>heap := (heap s2)(rk :=
                        (heap s2 rk)\<lparr>col := rook_dest_col, has_moved := True\<rparr>)\<rparr>))
      })"

definition is_en_passant_target :: "ChessGame \<Rightarrow> int \<Rightarrow> int \<Rightarrow> bool" where
  "is_en_passant_target s dest_row dest_col =
     (case en_passant_target s of
        None \<Rightarrow> False
      | Some t \<Rightarrow> dest_row = fst t \<and> dest_col = snd t)"

text \<open>The block under \<open># Update castling rights\<close>; it runs after the piece was relocated.\<close>

definition update_castling_rights :: "ChessGame \<Rightarrow> Piece \<Rightarrow> ChessGame" where
  "update_castling_rights s piece =
     (if ptype piece = KING then
        (if color piece = WHITE then s\<lparr>white_king_moved := True\<rparr>
         else s\<lparr>black_king_moved := True\<rparr>)
      else if ptype piece = ROOK then
        (if color piece = WHITE then
           (if col piece = 0 then s\<lparr>white_rook_a_moved := True\<rparr>
            else if col piece = 7 then s\<lparr>white_rook_h_moved := True\<rparr>
            else s)
         else
           (if col piece = 0 then s\<lparr>black_rook_a_moved := True\<rparr>
            else if col piece = 7 then s\<lparr>black_rook_h_moved := True\<rparr>
            else s))
      else s)"

text \<open>
  \<open>make_move\<close> runs its blocks in the order of the source; each block is one definition
  below, named after the comment that heads it.
\<close>

text \<open>\<open># Handle special moves\<close>: a king moving two columns takes the corner rook along.\<close>

definition castling_step :: "ChessGame \<Rightarrow> ref \<Rightarrow> int \<Rightarrow> ChessGame option" where
  "castling_step s p dest_col =
     (if ptype (heap s p) = KING \<and> \<bar>dest_col - col (heap s p)\<bar> = 2
      then castle_rook s p dest_col else Some s)"

text \<open>\<open># Handle en passant capture\<close>: the cell beside the pawn, in the target's column.\<close>

definition en_passant_capture :: "ChessGame \<Rightarrow> ref \<Rightarrow> int \<Rightarrow> int \<Rightarrow> ChessGame option" where
  "en_passant_capture s p dest_row dest_col =
     (if ptype (heap s p) = PAWN \<and> is_en_passant_target s dest_row dest_col
      then board_set s (row (heap s p)) dest_col None else Some s)"

text \<open>\<open># Record move for en passant possibility check\<close>.\<close>

definition record_en_passant :: "ChessGame \<Rightarrow> ref \<Rightarrow> int \<Rightarrow> int \<Rightarrow> ChessGame" where
  "record_en_passant s p dest_row dest_col =
     (if ptype (heap s p) = PAWN \<and> \<bar>dest_row - row (heap s p)\<bar> = 2
      then s\<lparr>en_passant_target := Some ((dest_row + row (heap s p)) div 2, dest_col)\<rparr>
      else s\<lparr>en_passant_target := None\<rparr>)"

text \<open>\<open># Move the piece\<close>: the two cell writes, then the three attribute writes.\<close>

definition relocate :: "ChessGame \<Rightarrow> ref \<Rightarrow> int \<Rightarrow> int \<Rightarrow> ChessGame option" where
  "relocate s p dest_row dest_col =
     do {
       s1 \<leftarrow> board_set s dest_row dest_col (Some p);
       s2 \<leftarrow> board_set s1 (row (heap s1 p)) (col (heap s1 p)) None;
       Some (s2\<lparr>heap := (heap s2)(p :=
               (heap s2 p)\<lparr>row := dest_row, col := dest_col, has_moved := True\<rparr>)\<rparr>)
     }"

text \<open>\<open># Handle pawn promotion\<close>; it reads the row the piece has after the relocation.\<close>

definition promote :: "ChessGame \<Rightarrow> ref \<Rightarrow> int \<Rightarrow> int \<Rightarrow> ChessGame option" where
  "promote s p dest_row dest_col =
     (if ptype (heap s p) = PAWN \<and>
         ((color (heap s p) = WHITE \<and> row (heap s p) = 0) \<or>
          (color (heap s p) = BLACK \<and> row (heap s p) = 7))
      then (let (queen, s') = new_Piece s QUEEN (color (heap s p)) dest_row dest_col
            in board_set s' dest_row dest_col (Some queen))
      else Some s)"

text \<open>
  \<open># Switch turn\<close>, \<open># Add to move history\<close> and \<open># Clear selection\<close>. The entry reads
  \<open>piece.row\<close> and \<open>piece.col\<close> at this point, after the relocation.
\<close>

definition finish_move ::
  "ChessGame \<Rightarrow> ref \<Rightarrow> int \<Rightarrow> int \<Rightarrow> ref option \<Rightarrow> ChessGame" where
  "finish_move s p dest_row dest_col captured_piece =
     s\<lparr>turn := (if turn s = WHITE then BLACK else WHITE),
       move_history := move_history s @
         [\<lparr>m_piece = p, m_from = (row (heap s p), col (heap s p)),
           m_to = (dest_row, dest_col), m_captured = captured_piece\<rparr>],
       selected_piece := None,
       valid_moves := []\<rparr>"

definition make_move :: "ChessGame \<Rightarrow> ref \<Rightarrow> int \<Rightarrow> int \<Rightarrow> ChessGame option" where
  "make_move s p dest_row dest_col =
     do {
       s1 \<leftarrow> castling_step s p dest_col;
       s2 \<leftarrow> en_passant_capture s1 p dest_row dest_col;
       let s3 = record_en_passant s2 p dest_row dest_col;
       captured_piece \<leftarrow> board_get s3 dest_row dest_col;
       s4 \<leftarrow> relocate s3 p dest_row dest_col;
       let s5 = update_castling_rights s4 (heap s4 p);
       s6 \<leftarrow> promote s5 p dest_row dest_col;
       Some (finish_move s6 p dest_row dest_col captured_piece)
     }"

section \<open>The initial position\<close>

text \<open>
  \<open>ChessGame.__init__\<close> with \<open>create_initial_board\<close>: first the pawn loop (for each column
  a black pawn on row 1, then a white pawn on row 6), then the back rows (for each column
  the black piece on row 0, then the white piece on row 7).
\<close>

definition place_new ::
  "PieceType \<Rightarrow> PieceColor \<Rightarrow> int \<Rightarrow> int \<Rightarrow> ChessGame \<Rightarrow> ChessGame" where
  "place_new t cl r c s =
     (let (p, s') = new_Piece s t cl r c in s'\<lparr>board := (board s')((r, c) := Some p)\<rparr>)"

definition back_row :: "PieceType list" where
  "back_row = [ROOK, KNIGHT, BISHOP, QUEEN, KING, BISHOP, KNIGHT, ROOK]"

definition empty_game :: ChessGame where
  "empty_game =
     \<lparr>board = (\<lambda>sq. None),
      heap = (\<lambda>p. \<lparr>ptype = PAWN, color = WHITE, row = 0, col = 0, has_moved = False\<rparr>),
      next_ref = 0, turn = WHITE,
      white_king_moved = False, black_king_moved = False,
      white_rook_a_moved = False, white_rook_h_moved = False,
      black_rook_a_moved = False, black_rook_h_moved = False,
      en_passant_target = None, move_history = [],
      selected_piece = None, valid_moves = []\<rparr>"

definition create_initial_board :: "ChessGame \<Rightarrow> ChessGame" where
  "create_initial_board s =
     (let s1 = fold (\<lambda>c. place_new PAWN WHITE 6 c \<circ> place_new PAWN BLACK 1 c) [0..7] s in
      fold (\<lambda>(c, t). place_new t WHITE 7 c \<circ> place_new t BLACK 0 c) (zip [0..7] back_row) s1)"

definition initial_game :: ChessGame where
  "initial_game = create_initial_board empty_game"

section \<open>Predicates used in the statements\<close>

text \<open>A square of the 8 by 8 board.\<close>

definition on_board :: "square \<Rightarrow> bool" where
  "on_board sq = (0 \<le> fst sq \<and> fst sq < 8 \<and> 0 \<le> snd sq \<and> snd sq < 8)"

text \<open>The cell holds a piece of colour \<open>cl\<close>.\<close>

definition own_side_at :: "ChessGame \<Rightarrow> PieceColor \<Rightarrow> square \<Rightarrow> bool" where
  "own_side_at s cl sq =
     (case board s sq of None \<Rightarrow> False | Some q \<Rightarrow> color (heap s q) = cl)"

definition good_dest :: "ChessGame \<Rightarrow> PieceColor \<Rightarrow> square \<Rightarrow> bool" where
  "good_dest s cl sq = (on_board sq \<and> \<not> own_side_at s cl sq)"

text \<open>Every piece on the board records the row and column of the cell that holds it.\<close>

definition coords_agree :: "ChessGame \<Rightarrow> bool" where
  "coords_agree s =
     (\<forall>sq \<in> set all_squares.
        case board s sq of
          None \<Rightarrow> True
        | Some q \<Rightarrow> (row (heap s q), col (heap s q)) = sq)"

text \<open>The piece is on the board.\<close>

definition stands_on_board :: "ChessGame \<Rightarrow> ref \<Rightarrow> bool" where
  "stands_on_board s p = (\<exists>sq \<in> set all_squares. board s sq = Some p)"

text \<open>The piece stands on the square it records, and on no other.\<close>

definition stands_at_own_square :: "ChessGame \<Rightarrow> ref \<Rightarrow> bool" where
  "stands_at_own_square s p =
     (on_board (row (heap s p), col (heap s p)) \<and>
      board s (row (heap s p), col (heap s p)) = Some p)"

text \<open>No king of colour \<open>cl\<close> on the board.\<close>

definition no_king :: "ChessGame \<Rightarrow> PieceColor \<Rightarrow> bool" where
  "no_king s cl = (\<forall>sq \<in> set all_squares. \<not> king_here s cl sq)"

text \<open>The piece stands on no square but the one it records.\<close>

definition stands_nowhere_else :: "ChessGame \<Rightarrow> ref \<Rightarrow> bool" where
  "stands_nowhere_else s p =
     (\<forall>sq \<in> set all_squares.
        board s sq = Some p \<longrightarrow> sq = (row (heap s p), col (heap s p)))"

text \<open>The castling flags of two states, compared: no \<open>..._moved\<close> flag went back to False.\<close>

definition rights_kept :: "ChessGame \<Rightarrow> ChessGame \<Rightarrow> bool" where
  "rights_kept s s' =
     ((white_king_moved s \<longrightarrow> white_king_moved s') \<and>
      (black_king_moved s \<longrightarrow> black_king_moved s') \<and>
      (white_rook_a_moved s \<longrightarrow> white_rook_a_moved s') \<and>
      (white_rook_h_moved s \<longrightarrow> white_rook_h_moved s') \<and>
      (black_rook_a_moved s \<longrightarrow> black_rook_a_moved s') \<and>
      (black_rook_h_moved s \<longrightarrow> black_rook_h_moved s'))"

text \<open>The second state differs from the first in cells, objects and allocation only.\<close>

definition store_only :: "ChessGame \<Rightarrow> ChessGame \<Rightarrow> bool" where
  "store_only s s' =
     (turn s' = turn s \<and> move_history s' = move_history s \<and>
      en_passant_target s' = en_passant_target s \<and>
      white_king_moved s' = white_king_moved s \<and>
      black_king_moved s' = black_king_moved s \<and>
      white_rook_a_moved s' = white_rook_a_moved s \<and>
      white_rook_h_moved s' = white_rook_h_moved s \<and>
      black_rook_a_moved s' = black_rook_a_moved s \<and>
      black_rook_h_moved s' = black_rook_h_moved s)"

text \<open>Observations of a state, for the evaluations below.\<close>

definition cell :: "square \<Rightarrow> ChessGame \<Rightarrow> ref option" where
  "cell sq s = board s sq"

definition legal_destinations :: "ref \<Rightarrow> ChessGame \<Rightarrow> square list option" where
  "legal_destinations p s = map_option fst (get_valid_moves s p)"

definition history_from :: "ChessGame \<Rightarrow> square list" where
  "history_from s = map m_from (move_history s)"

definition history_to :: "ChessGame \<Rightarrow> square list" where
  "history_to s = map m_to (move_history s)"

section \<open>Positions\<close>

text \<open>
  White pawn on (6, 4) (reference 0), black pawn on (4, 3) (reference 1), white king on
  (7, 4) (reference 2), black king on (0, 4) (reference 3); White to move.
\<close>

definition pos_pawns :: ChessGame where
  "pos_pawns =
     place_new KING BLACK 0 4 (place_new KING WHITE 7 4
       (place_new PAWN BLACK 4 3 (place_new PAWN WHITE 6 4 empty_game)))"

text \<open>
  White king on (3, 3) (reference 0), black pawn on (2, 4) (reference 1), black king on
  (0, 0) (reference 2): the king stands on a square the pawn could capture on.
\<close>

definition pos_king_ahead :: ChessGame where
  "pos_king_ahead =
     place_new KING BLACK 0 0 (place_new PAWN BLACK 2 4 (place_new KING WHITE 3 3 empty_game))"

text \<open>The same with the black pawn on (4, 4): the king stands diagonally behind the pawn.\<close>

definition pos_king_behind :: ChessGame where
  "pos_king_behind =
     place_new KING BLACK 0 0 (place_new PAWN BLACK 4 4 (place_new KING WHITE 3 3 empty_game))"

text \<open>
  White rooks on their home corners (7, 0) (reference 0) and (7, 7) (reference 1), white
  king on (7, 4) (reference 2), black king on (0, 4) (reference 3); nothing has moved.
\<close>

definition pos_rooks :: ChessGame where
  "pos_rooks =
     place_new KING BLACK 0 4 (place_new KING WHITE 7 4
       (place_new ROOK WHITE 7 7 (place_new ROOK WHITE 7 0 empty_game)))"

text \<open>
  White pawn on (1, 0) (reference 0), one step from the last rank, white king on (7, 4)
  (reference 1), black king on (0, 4) (reference 2).
\<close>

definition pos_promotion :: ChessGame where
  "pos_promotion =
     place_new KING BLACK 0 4 (place_new KING WHITE 7 4 (place_new PAWN WHITE 1 0 empty_game))"

text \<open>A white king on (7, 4) and a black rook on (0, 4): Black has no king.\<close>

definition pos_no_black_king :: ChessGame where
  "pos_no_black_king = place_new ROOK BLACK 0 4 (place_new KING WHITE 7 4 empty_game)"

section \<open>The states of a game\<close>

text \<open>Every reference held by a cell was returned by a constructor call before.\<close>

definition refs_allocated :: "ChessGame \<Rightarrow> bool" where
  "refs_allocated s =
     (\<forall>sq \<in> set all_squares.
        case board s sq of None \<Rightarrow> True | Some q \<Rightarrow> q < next_ref s)"

definition wf_game :: "ChessGame \<Rightarrow> bool" where
  "wf_game s = (coords_agree s \<and> refs_allocated s)"

text \<open>
  The Start button of \<open>run\<close>: a new board from \<open>create_initial_board\<close>, White to move, the
  selection cleared. The castling flags, the en-passant target and the history stay.
\<close>

definition start_game :: "ChessGame \<Rightarrow> ChessGame" where
  "start_game s =
     (create_initial_board (s\<lparr>board := (\<lambda>sq. None)\<rparr>))
       \<lparr>turn := WHITE, selected_piece := None, valid_moves := []\<rparr>"

text \<open>
  The states \<open>run\<close> can reach. Both callers of \<open>make_move\<close>, the board click and
  \<open>ai_make_move\<close>, take a piece of the side to move from a cell of the board and a
  destination from the list \<open>get_valid_moves\<close> returned for that piece.
\<close>

inductive reachable :: "ChessGame \<Rightarrow> bool" where
  init: "reachable initial_game"
| start: "reachable s \<Longrightarrow> reachable (start_game s)"
| move: "reachable s \<Longrightarrow> stands_on_board s p \<Longrightarrow> color (heap s p) = turn s \<Longrightarrow>
         get_valid_moves s p = Some (moves, s1) \<Longrightarrow> (r, c) \<in> set moves \<Longrightarrow>
         make_move s1 p r c = Some s' \<Longrightarrow> reachable s'"

text \<open>
  The game 1. e4 a6 2. e5 d5 from the initial position: white pawn 9 from (6, 4) to (4, 4),
  black pawn 0 from (1, 0) to (2, 0), white pawn 9 on to (3, 4), black pawn 6 from (1, 3)
  to (3, 3), beside the white pawn.
\<close>

definition game_e4_a6_e5_d5 :: "ChessGame option" where
  "game_e4_a6_e5_d5 =
     Option.bind (Option.bind (Option.bind (make_move initial_game 9 4 4)
       (\<lambda>s. make_move s 0 2 0)) (\<lambda>s. make_move s 9 3 4)) (\<lambda>s. make_move s 6 3 3)"

section \<open>Basic facts\<close>

lemma in_all_squares: "sq \<in> set all_squares \<longleftrightarrow> on_board sq"
  by (cases sq) (auto simp: all_squares_def on_board_def image_iff)

lemma py_idx_in_range: "0 \<le> i \<Longrightarrow> i < 8 \<Longrightarrow> py_idx i = Some i"
  by (simp add: py_idx_def)

lemma board_get_in_range:
  "0 \<le> r \<Longrightarrow> r < 8 \<Longrightarrow> 0 \<le> c \<Longrightarrow> c < 8 \<Longrightarrow> board_get s r c = Some (board s (r, c))"
  by (simp add: board_get_def py_idx_in_range)

lemma board_set_in_range:
  "0 \<le> r \<Longrightarrow> r < 8 \<Longrightarrow> 0 \<le> c \<Longrightarrow> c < 8 \<Longrightarrow>
   board_set s r c v = Some (s\<lparr>board := (board s)((r, c) := v)\<rparr>)"
  by (simp add: board_set_def py_idx_in_range)

section \<open>The check detector restores every position it overwrites\<close>

lemma set_pos_restore:
  "set_pos (set_pos s p r c) p (row (heap s p)) (col (heap s p)) = s"
  by (simp add: set_pos_def)

lemma scan_opponents_state: "snd (scan_opponents s oc kp sqs) = s"
proof (induction sqs arbitrary: s)
  case Nil
  show ?case by simp
next
  case (Cons sq sqs)
  obtain r c where sq: "sq = (r, c)" by (cases sq)
  show ?case
    unfolding sq
    by (simp add: Let_def set_pos_restore Cons.IH split: option.split)
qed

lemma is_king_in_check_state: "snd (is_king_in_check s cl) = s"
  by (simp add: is_king_in_check_def scan_opponents_state split: option.split)

lemma probe_restores:
  assumes dest: "0 \<le> dest_row" "dest_row < 8" "0 \<le> dest_col" "dest_col < 8"
    and pos: "0 \<le> row (heap s p)" "row (heap s p) < 8"
             "0 \<le> col (heap s p)" "col (heap s p) < 8"
    and cell: "board s (row (heap s p), col (heap s p)) = Some p"
  shows "\<exists>in_check. move_puts_king_in_check s p dest_row dest_col = Some (in_check, s)"
proof -
  let ?r = "row (heap s p)" and ?c = "col (heap s p)"
  let ?s2 = "s\<lparr>board := (board s)((dest_row, dest_col) := Some p, (?r, ?c) := None)\<rparr>"
  let ?s3 = "set_pos ?s2 p dest_row dest_col"
  obtain b s4 where chk: "is_king_in_check ?s3 (color (heap ?s3 p)) = (b, s4)"
    by (cases "is_king_in_check ?s3 (color (heap ?s3 p))")
  have s4: "s4 = ?s3"
    using is_king_in_check_state [of ?s3 "color (heap ?s3 p)"] chk by simp
  have board_back:
    "(board s)((dest_row, dest_col) := Some p, (?r, ?c) := None, (?r, ?c) := Some p,
        (dest_row, dest_col) := board s (dest_row, dest_col)) = board s"
    using cell by (auto simp: fun_eq_iff)
  have "move_puts_king_in_check s p dest_row dest_col = Some (b, s)"
    using chk s4 board_back
    by (simp add: move_puts_king_in_check_def board_get_def board_set_def
        py_idx_in_range dest pos set_pos_def)
  then show ?thesis by blast
qed

lemma filter_moves_restores:
  assumes pos: "0 \<le> row (heap s p)" "row (heap s p) < 8"
               "0 \<le> col (heap s p)" "col (heap s p) < 8"
    and cell: "board s (row (heap s p), col (heap s p)) = Some p"
    and ms: "\<forall>sq \<in> set ms. on_board sq"
  shows "\<exists>ks. filter_moves s p ms = Some (ks, s) \<and> set ks \<subseteq> set ms"
  using ms
proof (induction ms)
  case Nil
  show ?case by simp
next
  case (Cons m ms)
  from Cons.prems have m: "0 \<le> fst m" "fst m < 8" "0 \<le> snd m" "snd m < 8"
    by (simp_all add: on_board_def)
  obtain b where probe: "move_puts_king_in_check s p (fst m) (snd m) = Some (b, s)"
    using probe_restores [OF m pos cell] by blast
  obtain ks where ks: "filter_moves s p ms = Some (ks, s)" "set ks \<subseteq> set ms"
    using Cons by auto
  show ?case using probe ks by auto
qed

section \<open>Every generated destination is on the board and not held by the mover's side\<close>

lemma ray_good: "sq \<in> set (ray s piece d steps) \<Longrightarrow> good_dest s (color piece) sq"
proof (induction steps)
  case Nil
  then show ?case by (cases d) simp
next
  case (Cons i steps)
  obtain dr dc where d: "d = (dr, dc)" by (cases d)
  from Cons show ?case
    unfolding d
    by (auto simp: Let_def good_dest_def on_board_def own_side_at_def
        split: if_splits option.splits)
qed

lemma slide_good: "sq \<in> set (slide s piece ds) \<Longrightarrow> good_dest s (color piece) sq"
  by (auto simp: slide_def dest: ray_good)

lemma offset_move_good: "sq \<in> set (offset_move s piece d) \<Longrightarrow> good_dest s (color piece) sq"
  by (auto simp: offset_move_def Let_def good_dest_def on_board_def own_side_at_def
      split: if_splits option.splits)

lemma castling_moves_good:
  "sq \<in> set (castling_moves s piece) \<Longrightarrow> good_dest s (color piece) sq"
  by (auto simp: castling_moves_def good_dest_def on_board_def own_side_at_def
      split: if_splits)

lemma get_king_moves_good:
  "sq \<in> set (get_king_moves s p) \<Longrightarrow> good_dest s (color (heap s p)) sq"
  by (auto simp: get_king_moves_def dest: offset_move_good castling_moves_good)

lemma get_knight_moves_good:
  "sq \<in> set (get_knight_moves s p) \<Longrightarrow> good_dest s (color (heap s p)) sq"
  by (auto simp: get_knight_moves_def dest: offset_move_good)

lemma get_rook_moves_good:
  "sq \<in> set (get_rook_moves s p) \<Longrightarrow> good_dest s (color (heap s p)) sq"
  unfolding get_rook_moves_def by (rule slide_good)

lemma get_bishop_moves_good:
  "sq \<in> set (get_bishop_moves s p) \<Longrightarrow> good_dest s (color (heap s p)) sq"
  unfolding get_bishop_moves_def by (rule slide_good)

lemma get_queen_moves_good:
  "sq \<in> set (get_queen_moves s p) \<Longrightarrow> good_dest s (color (heap s p)) sq"
  by (auto simp: get_queen_moves_def dest: get_rook_moves_good get_bishop_moves_good)

text \<open>
  The en-passant block of \<open>get_pawn_moves\<close> asks for \<open>piece.row == ep_row\<close> and then for
  \<open>piece.row + direction == ep_row - direction\<close>: with a direction of 1 or -1 the two never
  hold together, so the block adds no move.
\<close>

lemma pawn_en_passant_dead:
  assumes "direction \<noteq> 0"
  shows "pawn_en_passant s piece direction = []"
proof (cases "en_passant_target s")
  case None
  then show ?thesis by (simp add: pawn_en_passant_def)
next
  case (Some t)
  obtain ep_row ep_col where t: "t = (ep_row, ep_col)" by (cases t)
  from assms have "row piece = ep_row \<Longrightarrow> row piece + direction \<noteq> ep_row - direction"
    by arith
  then show ?thesis using Some t by (simp add: pawn_en_passant_def Let_def)
qed

lemma pawn_capture_cases:
  "pawn_capture s piece direction c = [] \<or>
   (pawn_capture s piece direction c = [(row piece + direction, c)] \<and>
    on_board (row piece + direction, c) \<and>
    (\<exists>t. board s (row piece + direction, c) = Some t \<and>
         color (heap s t) \<noteq> color piece))"
  by (simp add: pawn_capture_def Let_def on_board_def split: option.split)

lemma pawn_capture_good:
  assumes "sq \<in> set (pawn_capture s piece direction c)"
  shows "good_dest s (color piece) sq"
proof -
  from pawn_capture_cases [of s piece direction c] assms
  obtain t where "sq = (row piece + direction, c)" "on_board sq"
    "board s sq = Some t" "color (heap s t) \<noteq> color piece"
    by auto
  then show ?thesis by (simp add: good_dest_def own_side_at_def)
qed

lemma pawn_forward_good:
  assumes c: "0 \<le> col piece" "col piece < 8"
    and d: "direction = (if color piece = WHITE then - 1 else 1)"
  shows "\<exists>ms. pawn_forward s piece direction = Some ms \<and>
           (\<forall>sq \<in> set ms. good_dest s (color piece) sq)"
  using c d
  by (cases "color piece")
     (auto simp: pawn_forward_def Let_def board_get_in_range good_dest_def on_board_def
        own_side_at_def)

lemma get_pawn_moves_good:
  assumes c: "0 \<le> col (heap s p)" "col (heap s p) < 8"
  shows "\<exists>ms. get_pawn_moves s p = Some ms \<and>
           (\<forall>sq \<in> set ms. good_dest s (color (heap s p)) sq)"
proof -
  let ?piece = "heap s p"
  let ?d = "if color ?piece = WHITE then - 1 else (1::int)"
  obtain fw where fw: "pawn_forward s ?piece ?d = Some fw"
    and fwg: "\<forall>sq \<in> set fw. good_dest s (color ?piece) sq"
    using pawn_forward_good [OF c, of ?d s] by auto
  have ep: "pawn_en_passant s ?piece ?d = []"
    by (rule pawn_en_passant_dead) simp
  have "get_pawn_moves s p =
          Some (fw @ concat (map (pawn_capture s ?piece ?d) [col ?piece - 1, col ?piece + 1]))"
    using fw ep by (simp add: get_pawn_moves_def Let_def)
  moreover have "\<forall>sq \<in> set (fw @ concat (map (pawn_capture s ?piece ?d)
                      [col ?piece - 1, col ?piece + 1])). good_dest s (color ?piece) sq"
    using fwg by (auto dest: pawn_capture_good)
  ultimately show ?thesis by blast
qed

lemma piece_moves_good:
  assumes c: "0 \<le> col (heap s p)" "col (heap s p) < 8"
  shows "\<exists>ms. piece_moves s p = Some ms \<and>
           (\<forall>sq \<in> set ms. good_dest s (color (heap s p)) sq)"
proof (cases "ptype (heap s p)")
  case PAWN
  then show ?thesis using get_pawn_moves_good [OF c] by (simp add: piece_moves_def)
next
  case ROOK
  then show ?thesis by (auto simp: piece_moves_def dest: get_rook_moves_good)
next
  case KNIGHT
  then show ?thesis by (auto simp: piece_moves_def dest: get_knight_moves_good)
next
  case BISHOP
  then show ?thesis by (auto simp: piece_moves_def dest: get_bishop_moves_good)
next
  case QUEEN
  then show ?thesis by (auto simp: piece_moves_def dest: get_queen_moves_good)
next
  case KING
  then show ?thesis by (auto simp: piece_moves_def dest: get_king_moves_good)
qed

lemma get_valid_moves_good:
  assumes pos: "0 \<le> row (heap s p)" "row (heap s p) < 8"
               "0 \<le> col (heap s p)" "col (heap s p) < 8"
    and cell: "board s (row (heap s p), col (heap s p)) = Some p"
  shows "\<exists>ks. get_valid_moves s p = Some (ks, s) \<and>
           (\<forall>d \<in> set ks. good_dest s (color (heap s p)) d)"
proof -
  obtain cand where cand: "piece_moves s p = Some cand"
      and good: "\<forall>d \<in> set cand. good_dest s (color (heap s p)) d"
    using piece_moves_good [OF pos(3,4)] by blast
  from good have "\<forall>d \<in> set cand. on_board d" by (simp add: good_dest_def)
  then obtain ks where ks: "filter_moves s p cand = Some (ks, s)" "set ks \<subseteq> set cand"
    using filter_moves_restores [OF pos cell] by blast
  have "get_valid_moves s p = Some (ks, s)"
    using cand ks(1) by (simp add: get_valid_moves_def)
  moreover have "\<forall>d \<in> set ks. good_dest s (color (heap s p)) d"
    using good ks(2) by auto
  ultimately show ?thesis by blast
qed

section \<open>The blocks of \<open>make_move\<close>\<close>

lemma store_only_refl: "store_only s s"
  by (simp add: store_only_def)

lemma store_only_trans: "store_only s s1 \<Longrightarrow> store_only s1 s2 \<Longrightarrow> store_only s s2"
  by (simp add: store_only_def)

lemma board_set_store: "board_set s r c v = Some s' \<Longrightarrow> store_only s s'"
  by (auto simp: store_only_def board_set_def split: Option.bind_splits)

lemma board_set_heap: "board_set s r c v = Some s' \<Longrightarrow> heap s' = heap s"
  by (auto simp: board_set_def split: Option.bind_splits)

lemma castle_rook_store: "castle_rook s p dc = Some s' \<Longrightarrow> store_only s s'"
  by (auto simp: castle_rook_def Let_def store_only_def board_set_def
      split: Option.bind_splits option.splits)

lemma castling_step_store: "castling_step s p dc = Some s' \<Longrightarrow> store_only s s'"
  by (auto simp: castling_step_def store_only_refl dest: castle_rook_store split: if_splits)

lemma en_passant_capture_store:
  "en_passant_capture s p dr dc = Some s' \<Longrightarrow> store_only s s'"
  by (auto simp: en_passant_capture_def store_only_refl dest: board_set_store split: if_splits)

lemma relocate_store: "relocate s p dr dc = Some s' \<Longrightarrow> store_only s s'"
  by (auto simp: relocate_def store_only_def board_set_def split: Option.bind_splits)

lemma promote_store: "promote s p dr dc = Some s' \<Longrightarrow> store_only s s'"
  by (auto simp: promote_def new_Piece_def store_only_def board_set_def
      split: Option.bind_splits if_splits)

lemma relocate_pos:
  "relocate s p dr dc = Some s' \<Longrightarrow> row (heap s' p) = dr \<and> col (heap s' p) = dc"
  by (auto simp: relocate_def board_set_def split: Option.bind_splits)

lemma promote_pos:
  assumes "promote s p dr dc = Some s'" "row (heap s p) = dr" "col (heap s p) = dc"
  shows "row (heap s' p) = dr \<and> col (heap s' p) = dc"
  using assms
  by (auto simp: promote_def new_Piece_def board_set_def split: Option.bind_splits if_splits)

lemma update_castling_rights_heap: "heap (update_castling_rights s pc) = heap s"
  by (simp add: update_castling_rights_def)

lemma update_castling_rights_kept: "rights_kept s (update_castling_rights s pc)"
  by (simp add: update_castling_rights_def rights_kept_def)

lemma update_castling_rights_other:
  "turn (update_castling_rights s pc) = turn s \<and>
   move_history (update_castling_rights s pc) = move_history s"
  by (simp add: update_castling_rights_def)

text \<open>The stages of a move that was applied.\<close>

lemma make_move_stages:
  assumes "make_move s p dr dc = Some s'"
  obtains s1 s2 cap s4 s6 where
    "castling_step s p dc = Some s1"
    "en_passant_capture s1 p dr dc = Some s2"
    "board_get (record_en_passant s2 p dr dc) dr dc = Some cap"
    "relocate (record_en_passant s2 p dr dc) p dr dc = Some s4"
    "promote (update_castling_rights s4 (heap s4 p)) p dr dc = Some s6"
    "s' = finish_move s6 p dr dc cap"
  using assms unfolding make_move_def Let_def
  by (auto split: Option.bind_splits)

lemma make_move_history:
  assumes mm: "make_move s p dest_row dest_col = Some s'"
  shows "\<exists>cap. move_history s' = move_history s @
           [\<lparr>m_piece = p, m_from = (dest_row, dest_col), m_to = (dest_row, dest_col),
             m_captured = cap\<rparr>]"
proof -
  from mm obtain s1 s2 cap s4 s6 where st:
    "castling_step s p dest_col = Some s1"
    "en_passant_capture s1 p dest_row dest_col = Some s2"
    "relocate (record_en_passant s2 p dest_row dest_col) p dest_row dest_col = Some s4"
    "promote (update_castling_rights s4 (heap s4 p)) p dest_row dest_col = Some s6"
    "s' = finish_move s6 p dest_row dest_col cap"
    by (rule make_move_stages)
  have h1: "move_history s1 = move_history s"
    using castling_step_store [OF st(1)] by (simp add: store_only_def)
  have h2: "move_history s2 = move_history s1"
    using en_passant_capture_store [OF st(2)] by (simp add: store_only_def)
  have h4: "move_history s4 = move_history s2"
    using relocate_store [OF st(3)] by (simp add: store_only_def record_en_passant_def)
  have h6: "move_history s6 = move_history s4"
    using promote_store [OF st(4)] by (simp add: store_only_def update_castling_rights_other)
  have p4: "row (heap s4 p) = dest_row \<and> col (heap s4 p) = dest_col"
    using relocate_pos [OF st(3)] .
  have p6: "row (heap s6 p) = dest_row \<and> col (heap s6 p) = dest_col"
    using promote_pos [OF st(4)] p4 by (simp add: update_castling_rights_heap)
  show ?thesis
    unfolding st(5) by (simp add: finish_move_def h1 h2 h4 h6 p6)
qed


lemma rights_kept_trans: "rights_kept a b \<Longrightarrow> rights_kept b c \<Longrightarrow> rights_kept a c"
  by (simp add: rights_kept_def)

lemma make_move_rights_kept:
  assumes mm: "make_move s p dest_row dest_col = Some s'"
  shows "rights_kept s s'"
proof -
  from mm obtain s1 s2 cap s4 s6 where st:
    "castling_step s p dest_col = Some s1"
    "en_passant_capture s1 p dest_row dest_col = Some s2"
    "relocate (record_en_passant s2 p dest_row dest_col) p dest_row dest_col = Some s4"
    "promote (update_castling_rights s4 (heap s4 p)) p dest_row dest_col = Some s6"
    "s' = finish_move s6 p dest_row dest_col cap"
    by (rule make_move_stages)
  have a: "rights_kept s s1"
    using castling_step_store [OF st(1)] by (simp add: store_only_def rights_kept_def)
  have b: "rights_kept s1 s2"
    using en_passant_capture_store [OF st(2)] by (simp add: store_only_def rights_kept_def)
  have c: "rights_kept s2 s4"
    using relocate_store [OF st(3)]
    by (simp add: store_only_def rights_kept_def record_en_passant_def)
  have d: "rights_kept s4 (update_castling_rights s4 (heap s4 p))"
    by (rule update_castling_rights_kept)
  have e: "rights_kept (update_castling_rights s4 (heap s4 p)) s6"
    using promote_store [OF st(4)] by (simp add: store_only_def rights_kept_def)
  have f: "rights_kept s6 s'"
    unfolding st(5) by (simp add: finish_move_def rights_kept_def)
  from a b c d e f show ?thesis
    by (blast intro: rights_kept_trans)
qed


section \<open>The initial position, written out\<close>

lemma upto_0_7: "[0..7::int] = [0, 1, 2, 3, 4, 5, 6, 7]"
  by code_simp

lemma create_initial_board_pieces:
  "create_initial_board s =
    (place_new ROOK WHITE 7 7 (place_new ROOK BLACK 0 7
    (place_new KNIGHT WHITE 7 6 (place_new KNIGHT BLACK 0 6
    (place_new BISHOP WHITE 7 5 (place_new BISHOP BLACK 0 5
    (place_new KING WHITE 7 4 (place_new KING BLACK 0 4
    (place_new QUEEN WHITE 7 3 (place_new QUEEN BLACK 0 3
    (place_new BISHOP WHITE 7 2 (place_new BISHOP BLACK 0 2
    (place_new KNIGHT WHITE 7 1 (place_new KNIGHT BLACK 0 1
    (place_new ROOK WHITE 7 0 (place_new ROOK BLACK 0 0
    (place_new PAWN WHITE 6 7 (place_new PAWN BLACK 1 7
    (place_new PAWN WHITE 6 6 (place_new PAWN BLACK 1 6
    (place_new PAWN WHITE 6 5 (place_new PAWN BLACK 1 5
    (place_new PAWN WHITE 6 4 (place_new PAWN BLACK 1 4
    (place_new PAWN WHITE 6 3 (place_new PAWN BLACK 1 3
    (place_new PAWN WHITE 6 2 (place_new PAWN BLACK 1 2
    (place_new PAWN WHITE 6 1 (place_new PAWN BLACK 1 1
    (place_new PAWN WHITE 6 0 (place_new PAWN BLACK 1 0
       s))))))))))))))))))))))))))))))))"
  by (simp add: create_initial_board_def upto_0_7 back_row_def)

lemma initial_game_pieces:
  "initial_game =
    (place_new ROOK WHITE 7 7 (place_new ROOK BLACK 0 7
    (place_new KNIGHT WHITE 7 6 (place_new KNIGHT BLACK 0 6
    (place_new BISHOP WHITE 7 5 (place_new BISHOP BLACK 0 5
    (place_new KING WHITE 7 4 (place_new KING BLACK 0 4
    (place_new QUEEN WHITE 7 3 (place_new QUEEN BLACK 0 3
    (place_new BISHOP WHITE 7 2 (place_new BISHOP BLACK 0 2
    (place_new KNIGHT WHITE 7 1 (place_new KNIGHT BLACK 0 1
    (place_new ROOK WHITE 7 0 (place_new ROOK BLACK 0 0
    (place_new PAWN WHITE 6 7 (place_new PAWN BLACK 1 7
    (place_new PAWN WHITE 6 6 (place_new PAWN BLACK 1 6
    (place_new PAWN WHITE 6 5 (place_new PAWN BLACK 1 5
    (place_new PAWN WHITE 6 4 (place_new PAWN BLACK 1 4
    (place_new PAWN WHITE 6 3 (place_new PAWN BLACK 1 3
    (place_new PAWN WHITE 6 2 (place_new PAWN BLACK 1 2
    (place_new PAWN WHITE 6 1 (place_new PAWN BLACK 1 1
    (place_new PAWN WHITE 6 0 (place_new PAWN BLACK 1 0
       empty_game))))))))))))))))))))))))))))))))"
  by (simp add: initial_game_def create_initial_board_pieces)

section \<open>What every reachable state satisfies\<close>

text \<open>
  \<open>wf_game\<close>: every piece on the board records the cell that holds it, and is an object
  created before. It holds when the game starts and every applied move of a piece on the
  board to a square of the board keeps it.
\<close>

lemma coords_agree_iff:
  "coords_agree s \<longleftrightarrow>
     (\<forall>r c q. 0 \<le> r \<and> r < 8 \<and> 0 \<le> c \<and> c < 8 \<and> board s (r, c) = Some q \<longrightarrow>
        row (heap s q) = r \<and> col (heap s q) = c)"
  unfolding coords_agree_def in_all_squares ball_conj_distrib
  by (auto simp: in_all_squares on_board_def split: option.splits)

lemma refs_allocated_iff:
  "refs_allocated s \<longleftrightarrow>
     (\<forall>r c q. 0 \<le> r \<and> r < 8 \<and> 0 \<le> c \<and> c < 8 \<and> board s (r, c) = Some q \<longrightarrow>
        q < next_ref s)"
  unfolding refs_allocated_def
  by (auto simp: in_all_squares on_board_def split: option.splits)

lemma py_idx_range: "py_idx i = Some j \<Longrightarrow> 0 \<le> j \<and> j < 8"
  by (auto simp: py_idx_def split: if_splits)

lemma clear_cell_wf:
  assumes "wf_game s" "board_set s r c None = Some s'"
  shows "wf_game s'"
  using assms
  by (auto simp: wf_game_def coords_agree_iff refs_allocated_iff board_set_def
      split: Option.bind_splits if_splits)

lemma board_set_store_fields:
  "board_set s r c v = Some s' \<Longrightarrow> heap s' = heap s \<and> next_ref s' = next_ref s"
  by (auto simp: board_set_def split: Option.bind_splits)

lemma en_passant_capture_wf:
  assumes wf: "wf_game s" and st: "en_passant_capture s p dr dc = Some s'"
  shows "wf_game s' \<and> heap s' = heap s \<and> next_ref s' = next_ref s"
proof (cases "ptype (heap s p) = PAWN \<and> is_en_passant_target s dr dc")
  case True
  with st have bs: "board_set s (row (heap s p)) dc None = Some s'"
    by (simp add: en_passant_capture_def)
  from clear_cell_wf [OF wf bs] board_set_store_fields [OF bs] show ?thesis by simp
next
  case False
  with st have "s' = s" by (auto simp: en_passant_capture_def)
  with wf show ?thesis by simp
qed

lemma record_en_passant_wf:
  "wf_game s \<Longrightarrow> wf_game (record_en_passant s p dr dc)"
  by (simp add: wf_game_def coords_agree_iff refs_allocated_iff record_en_passant_def)

lemma update_castling_rights_wf:
  "wf_game s \<Longrightarrow> wf_game (update_castling_rights s pc)"
  by (simp add: wf_game_def coords_agree_iff refs_allocated_iff update_castling_rights_def)

lemma finish_move_wf:
  "wf_game s \<Longrightarrow> wf_game (finish_move s p dr dc cap)"
  by (simp add: wf_game_def coords_agree_iff refs_allocated_iff finish_move_def)


lemma relocate_wf:
  assumes wf: "wf_game s"
    and dest: "0 \<le> dr" "dr < 8" "0 \<le> dc" "dc < 8"
    and pos: "0 \<le> row (heap s p)" "row (heap s p) < 8"
             "0 \<le> col (heap s p)" "col (heap s p) < 8"
    and alloc: "p < next_ref s"
    and st: "relocate s p dr dc = Some s'"
  shows "wf_game s'"
proof -
  let ?r = "row (heap s p)" and ?c = "col (heap s p)"
  have s': "s' = s\<lparr>board := (board s)((dr, dc) := Some p, (?r, ?c) := None),
                  heap := (heap s)(p := (heap s p)\<lparr>row := dr, col := dc, has_moved := True\<rparr>)\<rparr>"
    using st by (simp add: relocate_def board_set_in_range dest pos)
  from wf have ag: "\<And>r c q. 0 \<le> r \<Longrightarrow> r < 8 \<Longrightarrow> 0 \<le> c \<Longrightarrow> c < 8 \<Longrightarrow>
        board s (r, c) = Some q \<Longrightarrow> row (heap s q) = r \<and> col (heap s q) = c"
    and al: "\<And>r c q. 0 \<le> r \<Longrightarrow> r < 8 \<Longrightarrow> 0 \<le> c \<Longrightarrow> c < 8 \<Longrightarrow>
        board s (r, c) = Some q \<Longrightarrow> q < next_ref s"
    by (auto simp: wf_game_def coords_agree_iff refs_allocated_iff)
  have "coords_agree s'"
    unfolding coords_agree_iff
  proof (intro allI impI, elim conjE)
    fix r c q
    assume rc: "0 \<le> r" "r < 8" "0 \<le> c" "c < 8" and b: "board s' (r, c) = Some q"
    show "row (heap s' q) = r \<and> col (heap s' q) = c"
    proof (cases "(r, c) = (dr, dc)")
      case True
      with b have "q = p" by (auto simp: s' split: if_splits)
      with True show ?thesis by (simp add: s')
    next
      case False
      with b have ne: "(r, c) \<noteq> (?r, ?c)" and old: "board s (r, c) = Some q"
        by (auto simp: s' split: if_splits)
      from ag [OF rc old] ne have "q \<noteq> p" by auto
      with ag [OF rc old] show ?thesis by (simp add: s')
    qed
  qed
  moreover have "refs_allocated s'"
    unfolding refs_allocated_iff
  proof (intro allI impI, elim conjE)
    fix r c q
    assume rc: "0 \<le> r" "r < 8" "0 \<le> c" "c < 8" and b: "board s' (r, c) = Some q"
    from b have "q = p \<or> board s (r, c) = Some q" by (auto simp: s' split: if_splits)
    with alloc al [OF rc] show "q < next_ref s'" by (auto simp: s')
  qed
  ultimately show ?thesis by (simp add: wf_game_def)
qed

lemma promote_wf:
  assumes wf: "wf_game s"
    and dest: "0 \<le> dr" "dr < 8" "0 \<le> dc" "dc < 8"
    and st: "promote s p dr dc = Some s'"
  shows "wf_game s'"
proof (cases "s' = s")
  case True
  with wf show ?thesis by simp
next
  case False
  let ?q = "\<lparr>ptype = QUEEN, color = color (heap s p), row = dr, col = dc, has_moved = False\<rparr>"
  from False st have s': "s' = s\<lparr>heap := (heap s)(next_ref s := ?q),
       next_ref := Suc (next_ref s),
       board := (board s)((dr, dc) := Some (next_ref s))\<rparr>"
    by (auto simp: promote_def new_Piece_def board_set_in_range dest split: if_splits)
  from wf have ag: "\<And>r c q. 0 \<le> r \<Longrightarrow> r < 8 \<Longrightarrow> 0 \<le> c \<Longrightarrow> c < 8 \<Longrightarrow>
        board s (r, c) = Some q \<Longrightarrow> row (heap s q) = r \<and> col (heap s q) = c"
    and al: "\<And>r c q. 0 \<le> r \<Longrightarrow> r < 8 \<Longrightarrow> 0 \<le> c \<Longrightarrow> c < 8 \<Longrightarrow>
        board s (r, c) = Some q \<Longrightarrow> q < next_ref s"
    by (auto simp: wf_game_def coords_agree_iff refs_allocated_iff)
  have "coords_agree s'"
    unfolding coords_agree_iff
  proof (intro allI impI, elim conjE)
    fix r c q
    assume rc: "0 \<le> r" "r < 8" "0 \<le> c" "c < 8" and b: "board s' (r, c) = Some q"
    show "row (heap s' q) = r \<and> col (heap s' q) = c"
    proof (cases "(r, c) = (dr, dc)")
      case True
      with b have "q = next_ref s" by (auto simp: s')
      with True show ?thesis by (simp add: s')
    next
      case False
      with b have old: "board s (r, c) = Some q" by (auto simp: s' split: if_splits)
      from al [OF rc old] have "q \<noteq> next_ref s" by simp
      with ag [OF rc old] show ?thesis by (simp add: s')
    qed
  qed
  moreover have "refs_allocated s'"
    unfolding refs_allocated_iff
  proof (intro allI impI, elim conjE)
    fix r c q
    assume rc: "0 \<le> r" "r < 8" "0 \<le> c" "c < 8" and b: "board s' (r, c) = Some q"
    from b have "q = next_ref s \<or> board s (r, c) = Some q"
      by (auto simp: s' split: if_splits)
    with al [OF rc] show "q < next_ref s'" by (auto simp: s' less_Suc_eq)
  qed
  ultimately show ?thesis by (simp add: wf_game_def)
qed


lemma castle_rook_wf:
  assumes wf: "wf_game s"
    and pos: "0 \<le> row (heap s p)" "row (heap s p) < 8"
             "0 \<le> col (heap s p)" "col (heap s p) < 8"
    and dc: "0 \<le> dc" "dc < 8" and two: "\<bar>dc - col (heap s p)\<bar> = 2"
    and st: "castle_rook s p dc = Some s'"
  shows "wf_game s' \<and> heap s' p = heap s p \<and> next_ref s' = next_ref s"
proof -
  let ?r = "row (heap s p)"
  define start :: int where "start = (if dc > col (heap s p) then 7 else 0)"
  define rdest where "rdest = (if dc > col (heap s p) then dc - 1 else dc + 1)"
  have start: "0 \<le> start" "start < 8" "start \<noteq> col (heap s p)"
    using pos dc two by (auto simp: start_def)
  have rdest: "0 \<le> rdest" "rdest < 8" "rdest \<noteq> start"
    using pos dc two by (auto simp: rdest_def start_def)
  from wf have ag: "\<And>r c q. 0 \<le> r \<Longrightarrow> r < 8 \<Longrightarrow> 0 \<le> c \<Longrightarrow> c < 8 \<Longrightarrow>
        board s (r, c) = Some q \<Longrightarrow> row (heap s q) = r \<and> col (heap s q) = c"
    and al: "\<And>r c q. 0 \<le> r \<Longrightarrow> r < 8 \<Longrightarrow> 0 \<le> c \<Longrightarrow> c < 8 \<Longrightarrow>
        board s (r, c) = Some q \<Longrightarrow> q < next_ref s"
    by (auto simp: wf_game_def coords_agree_iff refs_allocated_iff)
  from st obtain rk where rk: "board s (?r, start) = Some rk"
    and s': "s' = s\<lparr>board := (board s)((?r, rdest) := Some rk, (?r, start) := None),
                    heap := (heap s)(rk := (heap s rk)\<lparr>col := rdest, has_moved := True\<rparr>)\<rparr>"
    unfolding castle_rook_def Let_def start_def [symmetric] rdest_def [symmetric]
    by (cases "board s (?r, start)")
       (auto simp: board_get_in_range board_set_in_range pos start rdest)
  from ag [OF pos(1,2) start(1,2) rk] have rkpos: "row (heap s rk) = ?r" "col (heap s rk) = start"
    by simp_all
  with start(3) have rkp: "rk \<noteq> p" by auto
  have "coords_agree s'"
    unfolding coords_agree_iff
  proof (intro allI impI, elim conjE)
    fix r c q
    assume rc: "0 \<le> r" "r < 8" "0 \<le> c" "c < 8" and b: "board s' (r, c) = Some q"
    show "row (heap s' q) = r \<and> col (heap s' q) = c"
    proof (cases "(r, c) = (?r, rdest)")
      case True
      with b rdest(3) have "q = rk" by (auto simp: s' split: if_splits)
      with True rkpos show ?thesis by (simp add: s')
    next
      case False
      with b have ne: "(r, c) \<noteq> (?r, start)" and old: "board s (r, c) = Some q"
        by (auto simp: s' split: if_splits)
      from ag [OF rc old] ne rkpos have "q \<noteq> rk" by auto
      with ag [OF rc old] show ?thesis by (simp add: s')
    qed
  qed
  moreover have "refs_allocated s'"
    unfolding refs_allocated_iff
  proof (intro allI impI, elim conjE)
    fix r c q
    assume rc: "0 \<le> r" "r < 8" "0 \<le> c" "c < 8" and b: "board s' (r, c) = Some q"
    from b have "q = rk \<or> board s (r, c) = Some q" by (auto simp: s' split: if_splits)
    with al [OF pos(1,2) start(1,2) rk] al [OF rc] show "q < next_ref s'"
      by (auto simp: s')
  qed
  ultimately show ?thesis using rkp by (simp add: wf_game_def s')
qed

lemma make_move_wf:
  assumes wf: "wf_game s" and on: "stands_on_board s p" and dest: "on_board (dr, dc)"
    and mm: "make_move s p dr dc = Some s'"
  shows "wf_game s'"
proof -
  from dest have d: "0 \<le> dr" "dr < 8" "0 \<le> dc" "dc < 8" by (simp_all add: on_board_def)
  from on obtain sq where sq: "on_board sq" "board s sq = Some p"
    by (auto simp: stands_on_board_def in_all_squares)
  obtain r c where rc: "sq = (r, c)" by (cases sq)
  from wf sq rc have at: "row (heap s p) = r" "col (heap s p) = c" and alloc: "p < next_ref s"
    by (auto simp: wf_game_def coords_agree_iff refs_allocated_iff on_board_def)
  from sq(1) rc at have pos: "0 \<le> row (heap s p)" "row (heap s p) < 8"
      "0 \<le> col (heap s p)" "col (heap s p) < 8"
    by (simp_all add: on_board_def)
  from mm obtain s1 s2 cap s4 s6 where st:
    "castling_step s p dc = Some s1"
    "en_passant_capture s1 p dr dc = Some s2"
    "relocate (record_en_passant s2 p dr dc) p dr dc = Some s4"
    "promote (update_castling_rights s4 (heap s4 p)) p dr dc = Some s6"
    "s' = finish_move s6 p dr dc cap"
    by (rule make_move_stages)
  have w1: "wf_game s1 \<and> heap s1 p = heap s p \<and> next_ref s1 = next_ref s"
  proof (cases "ptype (heap s p) = KING \<and> \<bar>dc - col (heap s p)\<bar> = 2")
    case True
    with st(1) have "castle_rook s p dc = Some s1" by (simp add: castling_step_def)
    from castle_rook_wf [OF wf pos d(3,4) _ this] True show ?thesis by simp
  next
    case False
    with st(1) have "s1 = s" by (auto simp: castling_step_def)
    with wf show ?thesis by simp
  qed
  from en_passant_capture_wf [OF _ st(2)] w1
  have w2: "wf_game s2" "heap s2 p = heap s p" "next_ref s2 = next_ref s" by simp_all
  let ?s3 = "record_en_passant s2 p dr dc"
  have w3: "wf_game ?s3" using w2(1) by (rule record_en_passant_wf)
  have h3: "heap ?s3 p = heap s p" "next_ref ?s3 = next_ref s"
    using w2 by (simp_all add: record_en_passant_def)
  have w4: "wf_game s4"
    using relocate_wf [OF w3 d _ _ _ _ _ st(3)] pos alloc h3 by simp
  have w5: "wf_game (update_castling_rights s4 (heap s4 p))"
    using w4 by (rule update_castling_rights_wf)
  have w6: "wf_game s6" using promote_wf [OF w5 d st(4)] .
  show ?thesis unfolding st(5) using w6 by (rule finish_move_wf)
qed



lemma place_new_wf:
  assumes wf: "wf_game s" and sq: "on_board (r, c)"
  shows "wf_game (place_new t cl r c s)"
proof -
  let ?n = "\<lparr>ptype = t, color = cl, row = r, col = c, has_moved = False\<rparr>"
  let ?s' = "place_new t cl r c s"
  have s': "?s' = s\<lparr>heap := (heap s)(next_ref s := ?n), next_ref := Suc (next_ref s),
                    board := (board s)((r, c) := Some (next_ref s))\<rparr>"
    by (simp add: place_new_def new_Piece_def)
  from wf have ag: "\<And>r c q. 0 \<le> r \<Longrightarrow> r < 8 \<Longrightarrow> 0 \<le> c \<Longrightarrow> c < 8 \<Longrightarrow>
        board s (r, c) = Some q \<Longrightarrow> row (heap s q) = r \<and> col (heap s q) = c"
    and al: "\<And>r c q. 0 \<le> r \<Longrightarrow> r < 8 \<Longrightarrow> 0 \<le> c \<Longrightarrow> c < 8 \<Longrightarrow>
        board s (r, c) = Some q \<Longrightarrow> q < next_ref s"
    by (auto simp: wf_game_def coords_agree_iff refs_allocated_iff)
  have "coords_agree ?s'"
    unfolding coords_agree_iff
  proof (intro allI impI, elim conjE)
    fix r' c' q
    assume rc: "0 \<le> r'" "r' < 8" "0 \<le> c'" "c' < 8" and b: "board ?s' (r', c') = Some q"
    show "row (heap ?s' q) = r' \<and> col (heap ?s' q) = c'"
    proof (cases "(r', c') = (r, c)")
      case True
      with b have "q = next_ref s" by (auto simp: s')
      with True show ?thesis by (simp add: s')
    next
      case False
      with b have old: "board s (r', c') = Some q" by (auto simp: s' split: if_splits)
      from al [OF rc old] have "q \<noteq> next_ref s" by simp
      with ag [OF rc old] show ?thesis by (simp add: s')
    qed
  qed
  moreover have "refs_allocated ?s'"
    unfolding refs_allocated_iff
  proof (intro allI impI, elim conjE)
    fix r' c' q
    assume rc: "0 \<le> r'" "r' < 8" "0 \<le> c'" "c' < 8" and b: "board ?s' (r', c') = Some q"
    from b have "q = next_ref s \<or> board s (r', c') = Some q"
      by (auto simp: s' split: if_splits)
    with al [OF rc] show "q < next_ref ?s'" by (auto simp: s' less_Suc_eq)
  qed
  ultimately show ?thesis by (simp add: wf_game_def)
qed

lemma empty_board_wf: "wf_game (s\<lparr>board := (\<lambda>sq. None)\<rparr>)"
  by (simp add: wf_game_def coords_agree_iff refs_allocated_iff)

lemma create_initial_board_wf: "wf_game s \<Longrightarrow> wf_game (create_initial_board s)"
  unfolding create_initial_board_pieces
  by (intro place_new_wf) (simp_all add: on_board_def)

lemma start_game_wf: "wf_game (start_game s)"
proof -
  have "wf_game (create_initial_board (s\<lparr>board := (\<lambda>sq. None)\<rparr>))"
    by (rule create_initial_board_wf) (rule empty_board_wf)
  then show ?thesis
    by (simp add: start_game_def wf_game_def coords_agree_iff refs_allocated_iff)
qed

lemma wf_piece_on_board:
  assumes wf: "wf_game s" and on: "stands_on_board s p"
  shows "stands_at_own_square s p \<and> stands_nowhere_else s p \<and> p < next_ref s"
proof -
  from on obtain sq where sq: "on_board sq" "board s sq = Some p"
    by (auto simp: stands_on_board_def in_all_squares)
  obtain r c where rc: "sq = (r, c)" by (cases sq)
  from wf sq rc have at: "row (heap s p) = r" "col (heap s p) = c" and alloc: "p < next_ref s"
    by (auto simp: wf_game_def coords_agree_iff refs_allocated_iff on_board_def)
  have "stands_at_own_square s p"
    using sq rc at by (simp add: stands_at_own_square_def)
  moreover have "stands_nowhere_else s p"
    unfolding stands_nowhere_else_def
  proof (intro ballI impI)
    fix sq' assume "sq' \<in> set all_squares" "board s sq' = Some p"
    with wf show "sq' = (row (heap s p), col (heap s p))"
      by (cases sq') (auto simp: wf_game_def coords_agree_iff in_all_squares on_board_def)
  qed
  ultimately show ?thesis using alloc by simp
qed


lemma initial_game_wf: "wf_game initial_game"
proof -
  have "wf_game empty_game"
    by (simp add: wf_game_def coords_agree_iff refs_allocated_iff empty_game_def)
  then show ?thesis unfolding initial_game_def by (rule create_initial_board_wf)
qed

lemma reachable_wf: "reachable s \<Longrightarrow> wf_game s"
proof (induction rule: reachable.induct)
  case init
  show ?case by (rule initial_game_wf)
next
  case (start s)
  show ?case by (rule start_game_wf)
next
  case (move s p moves s1 r c s')
  from wf_piece_on_board [OF move.IH move.hyps(2)]
  have at: "stands_at_own_square s p" by simp
  then obtain ks where "get_valid_moves s p = Some (ks, s)"
      and good: "\<forall>d \<in> set ks. good_dest s (color (heap s p)) d"
    using get_valid_moves_good [of s p] by (auto simp: stands_at_own_square_def on_board_def)
  with move.hyps(4) have same: "s1 = s" "moves = ks" by simp_all
  with good move.hyps(5) have "on_board (r, c)" by (auto simp: good_dest_def)
  with move.hyps(6) move.IH move.hyps(2) same show ?case
    by (auto intro: make_move_wf)
qed

section \<open>En passant\<close>

text \<open>
  C1. After a pawn's double advance the enemy pawn beside it should be offered the diagonal
  capture onto the midpoint square. In \<open>pos_pawns\<close> the white pawn goes from (6, 4) to
  (4, 4): \<open>make_move\<close> records the midpoint (5, 4) as \<open>en_passant_target\<close> and the square
  is empty, yet \<open>get_valid_moves\<close> gives the black pawn on (4, 3) the single move (5, 3).
  The en-passant block of \<open>get_pawn_moves\<close> never adds a move (\<open>pawn_en_passant_dead\<close>).
\<close>

theorem en_passant_capture_not_offered:
  "map_option en_passant_target (make_move pos_pawns 0 4 4) = Some (Some (5, 4)) \<and>
   map_option (cell (5, 4)) (make_move pos_pawns 0 4 4) = Some None \<and>
   map_option (cell (4, 4)) (make_move pos_pawns 0 4 4) = Some (Some 0) \<and>
   map_option (cell (4, 3)) (make_move pos_pawns 0 4 4) = Some (Some 1) \<and>
   Option.bind (make_move pos_pawns 0 4 4) (legal_destinations 1) = Some [(5, 3)]"
  by code_simp

text \<open>
  The same in a game from the initial position: after 1. e4 a6 2. e5 d5 the black pawn
  stands on (3, 3) beside the white pawn on (3, 4), the target (2, 3) is recorded and
  empty, and the white pawn is offered (2, 4) alone.
\<close>

lemma en_passant_in_a_game:
  "map_option en_passant_target game_e4_a6_e5_d5 = Some (Some (2, 3)) \<and>
   map_option (cell (2, 3)) game_e4_a6_e5_d5 = Some None \<and>
   map_option (cell (3, 3)) game_e4_a6_e5_d5 = Some (Some 6) \<and>
   map_option (cell (3, 4)) game_e4_a6_e5_d5 = Some (Some 9) \<and>
   Option.bind game_e4_a6_e5_d5 (legal_destinations 9) = Some [(2, 4)]"
  unfolding game_e4_a6_e5_d5_def initial_game_pieces by code_simp

section \<open>The attack set of a pawn\<close>

text \<open>
  C2. The check detector should take as a pawn's attack set the two diagonal squares in
  the pawn's own direction of advance. A black pawn advances towards row 7; for the black
  pawn on (2, 4) \<open>get_valid_moves_for_opponent\<close> gives (1, 3) and (1, 5), the squares behind
  it, so the white king on (3, 3) is reported not in check; with the pawn on (4, 4) the
  king on (3, 3), diagonally behind the pawn, is reported in check.
\<close>

theorem pawn_attack_set_points_backwards:
  "get_valid_moves_for_opponent pos_king_ahead 1 = [(1, 3), (1, 5)] \<and>
   fst (is_king_in_check pos_king_ahead WHITE) = False \<and>
   get_valid_moves_for_opponent pos_king_behind 1 = [(3, 3), (3, 5)] \<and>
   fst (is_king_in_check pos_king_behind WHITE) = True"
  by code_simp

text \<open>
  For every state: the squares the detector takes a pawn to attack are the on-board
  diagonal neighbours on row + 1 for a white pawn and on row - 1 for a black one, the
  opposite of the direction \<open>get_pawn_moves\<close> moves and captures in.
\<close>

lemma pawn_attack_squares:
  assumes "ptype (heap s p) = PAWN"
  shows "sq \<in> set (get_valid_moves_for_opponent s p) \<longleftrightarrow>
           on_board sq \<and>
           fst sq = row (heap s p) + (if color (heap s p) = WHITE then 1 else - 1) \<and>
           (snd sq = col (heap s p) - 1 \<or> snd sq = col (heap s p) + 1)"
  using assms
  by (cases sq)
     (auto simp: get_valid_moves_for_opponent_def pawn_attack_def on_board_def Let_def)

section \<open>Castling rights\<close>

text \<open>
  C3. A rook leaving its home corner should clear the castling right of that corner
  wherever it goes. The white rook of \<open>pos_rooks\<close> goes from (7, 0) to (7, 3):
  \<open>white_rook_a_moved\<close> is still False afterwards, because \<open>make_move\<close> tests the column
  the rook has after the relocation. No flag ever goes back (\<open>make_move_rights_kept\<close>).
\<close>

theorem rook_leaves_corner_right_kept:
  "map_option white_rook_a_moved (make_move pos_rooks 0 7 3) = Some False \<and>
   map_option (cell (7, 3)) (make_move pos_rooks 0 7 3) = Some (Some 0) \<and>
   map_option (cell (7, 0)) (make_move pos_rooks 0 7 3) = Some None"
  by code_simp

text \<open>
  The same test sets the flag of a corner the rook arrives at: the rook of (7, 0) going to
  (5, 0) and on to (5, 7) sets \<open>white_rook_h_moved\<close>, with the other rook still on (7, 7).
\<close>

lemma rook_arrival_clears_other_right:
  "map_option white_rook_a_moved (make_move pos_rooks 0 5 0) = Some True \<and>
   map_option white_rook_h_moved
     (Option.bind (make_move pos_rooks 0 5 0) (\<lambda>s. make_move s 0 5 7)) = Some True \<and>
   map_option (cell (7, 7))
     (Option.bind (make_move pos_rooks 0 5 0) (\<lambda>s. make_move s 0 5 7)) = Some (Some 1)"
  by code_simp

section \<open>The move history\<close>

text \<open>
  C4. The history entry of a move should hold the origin square under 'from'. From the
  initial position the white pawn of (6, 4) (reference 9) goes to (4, 4): the entry that
  \<open>make_move\<close> appends has (4, 4) under 'from' as well as under 'to'. It is so for every
  move (\<open>make_move_history\<close>): the entry is built after the piece was relocated.
\<close>

theorem history_from_is_destination:
  "(row (heap initial_game 9), col (heap initial_game 9)) = (6, 4) \<and>
   cell (6, 4) initial_game = Some 9 \<and>
   map_option history_from (make_move initial_game 9 4 4) = Some [(4, 4)] \<and>
   map_option history_to (make_move initial_game 9 4 4) = Some [(4, 4)]"
  unfolding initial_game_pieces by code_simp

section \<open>The attack set of a king\<close>

text \<open>
  C5. The attack set of a king should be its adjacent squares only, never a castling
  destination. For the white king of \<open>pos_rooks\<close> on (7, 4) the slice \<open>[0:8]\<close> of
  \<open>get_king_moves\<close> keeps the five adjacent squares and both castling destinations,
  (7, 6) and (7, 2).
\<close>

theorem king_attack_set_has_castling_squares:
  "get_valid_moves_for_opponent pos_rooks 2 =
     [(6, 3), (6, 4), (6, 5), (7, 3), (7, 5), (7, 6), (7, 2)]"
  by code_simp

text \<open>
  A castling destination is an empty square, so it is never the square of the king that
  \<open>is_king_in_check\<close> looks for: the extra squares do not change its answer.
\<close>

lemma castling_moves_empty:
  "sq \<in> set (castling_moves s piece) \<Longrightarrow> board s sq = None"
  by (auto simp: castling_moves_def split: if_splits)

section \<open>A side without a king\<close>

text \<open>
  C6. On a board with no king of the queried colour \<open>is_king_in_check\<close> returns False,
  raises nothing and leaves the state as it was.
\<close>

theorem no_king_no_check:
  assumes "no_king s cl"
  shows "is_king_in_check s cl = (False, s)"
proof -
  from assms have "find_king s cl = None"
    by (simp add: no_king_def find_king_def find_None_iff)
  then show ?thesis by (simp add: is_king_in_check_def)
qed

theorem no_king_no_check_witness:
  "no_king pos_no_black_king BLACK \<and>
   is_king_in_check pos_no_black_king BLACK = (False, pos_no_black_king)"
proof -
  have h: "no_king pos_no_black_king BLACK" by code_simp
  show ?thesis using h no_king_no_check [OF h] by simp
qed

section \<open>The probe leaves the state as it found it\<close>

text \<open>
  C7. For a piece standing on the square it records and a destination on the board,
  \<open>move_puts_king_in_check\<close> returns, and the state it returns is the state it was given:
  every cell of the board and every field of every piece, row and column included.
\<close>

theorem probe_leaves_state:
  assumes "stands_at_own_square s p" and "on_board (dest_row, dest_col)"
  shows "map_option snd (move_puts_king_in_check s p dest_row dest_col) = Some s"
proof -
  from assms obtain in_check where
    "move_puts_king_in_check s p dest_row dest_col = Some (in_check, s)"
    using probe_restores [of dest_row dest_col s p]
    by (auto simp: stands_at_own_square_def on_board_def)
  then show ?thesis by simp
qed

theorem probe_leaves_state_witness:
  "stands_at_own_square pos_pawns 0 \<and> on_board (5, 4) \<and>
   map_option snd (move_puts_king_in_check pos_pawns 0 5 4) = Some pos_pawns"
proof -
  have h: "stands_at_own_square pos_pawns 0" "on_board (5, 4)" by code_simp+
  show ?thesis using h probe_leaves_state [OF h] by simp
qed

section \<open>No legality check in \<open>make_move\<close>\<close>

text \<open>
  C8, as the claim states it: a destination outside the legal-move set is to be rejected
  with an error and the state left unchanged. In \<open>pos_pawns\<close> the legal destinations of the
  white pawn on (6, 4) are (5, 4) and (4, 4); \<open>make_move\<close> to (3, 4) returns a state all
  the same, with the pawn on (3, 4), (6, 4) empty and Black to move.
\<close>

theorem illegal_destination_applied:
  "legal_destinations 0 pos_pawns = Some [(5, 4), (4, 4)] \<and>
   cell (3, 4) pos_pawns = None \<and> cell (6, 4) pos_pawns = Some 0 \<and>
   turn pos_pawns = WHITE \<and>
   map_option (cell (3, 4)) (make_move pos_pawns 0 3 4) = Some (Some 0) \<and>
   map_option (cell (6, 4)) (make_move pos_pawns 0 3 4) = Some None \<and>
   map_option turn (make_move pos_pawns 0 3 4) = Some BLACK"
  by code_simp

text \<open>
  C8, amended: \<open>make_move\<close> checks no legality and reports no error. For a piece that
  records a square of the board and any other destination on the board (a king moving two
  columns aside), it returns an updated state: the origin cell is empty, the destination
  cell is occupied, the turn has passed to the other side and the history is one entry
  longer. Whether the destination is in the legal-move set plays no part.
\<close>

theorem make_move_checks_nothing:
  assumes orig: "on_board (row (heap s p), col (heap s p))"
    and dest: "on_board (dest_row, dest_col)"
    and differ: "(dest_row, dest_col) \<noteq> (row (heap s p), col (heap s p))"
    and no_castle: "\<not> (ptype (heap s p) = KING \<and> \<bar>dest_col - col (heap s p)\<bar> = 2)"
  shows "case make_move s p dest_row dest_col of
           None \<Rightarrow> False
         | Some s' \<Rightarrow>
             board s' (row (heap s p), col (heap s p)) = None \<and>
             board s' (dest_row, dest_col) \<noteq> None \<and>
             turn s' \<noteq> turn s \<and>
             length (move_history s') = Suc (length (move_history s))"
proof -
  let ?r = "row (heap s p)" and ?c = "col (heap s p)"
  from orig have pos: "0 \<le> ?r" "?r < 8" "0 \<le> ?c" "?c < 8"
    by (simp_all add: on_board_def)
  from dest have dr: "0 \<le> dest_row" "dest_row < 8" and dc: "0 \<le> dest_col" "dest_col < 8"
    by (simp_all add: on_board_def)
  have c1: "castling_step s p dest_col = Some s"
    using no_castle by (auto simp: castling_step_def)
  obtain s2 where s2: "en_passant_capture s p dest_row dest_col = Some s2"
    and h2: "heap s2 = heap s" and n2: "next_ref s2 = next_ref s"
    and t2: "turn s2 = turn s" and m2: "move_history s2 = move_history s"
  proof (cases "ptype (heap s p) = PAWN \<and> is_en_passant_target s dest_row dest_col")
    case True
    let ?t = "s\<lparr>board := (board s)((?r, dest_col) := None)\<rparr>"
    have "en_passant_capture s p dest_row dest_col = Some ?t"
      using True by (simp add: en_passant_capture_def board_set_in_range pos dc)
    moreover have "heap ?t = heap s" "next_ref ?t = next_ref s" "turn ?t = turn s"
      "move_history ?t = move_history s" by simp_all
    ultimately show ?thesis using that by blast
  next
    case False
    then have "en_passant_capture s p dest_row dest_col = Some s"
      by (auto simp: en_passant_capture_def)
    then show ?thesis using that by blast
  qed
  define s3 where "s3 = record_en_passant s2 p dest_row dest_col"
  have h3: "heap s3 = heap s" and t3: "turn s3 = turn s"
    and m3: "move_history s3 = move_history s"
    by (simp_all add: s3_def record_en_passant_def h2 t2 m2)
  have cap: "board_get s3 dest_row dest_col = Some (board s3 (dest_row, dest_col))"
    by (simp add: board_get_in_range dr dc)
  define s4 where
    "s4 = s3\<lparr>board := (board s3)((dest_row, dest_col) := Some p, (?r, ?c) := None),
             heap := (heap s)(p :=
               (heap s p)\<lparr>row := dest_row, col := dest_col, has_moved := True\<rparr>)\<rparr>"
  have rel: "relocate s3 p dest_row dest_col = Some s4"
    by (simp add: s4_def relocate_def board_set_in_range dr dc pos h3)
  define s5 where "s5 = update_castling_rights s4 (heap s4 p)"
  have b5: "board s5 (?r, ?c) = None" "board s5 (dest_row, dest_col) = Some p"
    using differ by (auto simp: s5_def s4_def update_castling_rights_def)
  have t5: "turn s5 = turn s" and m5: "move_history s5 = move_history s"
    by (simp_all add: s5_def s4_def update_castling_rights_def t3 m3)
  obtain s6 where pro: "promote s5 p dest_row dest_col = Some s6"
    and b6: "board s6 (?r, ?c) = None" "board s6 (dest_row, dest_col) \<noteq> None"
    and t6: "turn s6 = turn s" and m6: "move_history s6 = move_history s"
  proof (cases "promote s5 p dest_row dest_col = Some s5")
    case True
    then show ?thesis using that b5 t5 m5 by simp
  next
    case False
    let ?q = "snd (new_Piece s5 QUEEN (color (heap s5 p)) dest_row dest_col)"
    let ?t = "?q\<lparr>board := (board ?q)((dest_row, dest_col) := Some (next_ref s5))\<rparr>"
    from False have "promote s5 p dest_row dest_col = Some ?t"
      by (simp add: promote_def new_Piece_def board_set_in_range dr dc split: if_splits)
    moreover have "board ?t (?r, ?c) = None" "board ?t (dest_row, dest_col) \<noteq> None"
      "turn ?t = turn s" "move_history ?t = move_history s"
      using differ b5 t5 m5 by (auto simp: new_Piece_def)
    ultimately show ?thesis using that by blast
  qed
  define s' where "s' = finish_move s6 p dest_row dest_col (board s3 (dest_row, dest_col))"
  have mm: "make_move s p dest_row dest_col = Some s'"
    by (simp add: make_move_def c1 s2 s3_def [symmetric] cap rel s5_def [symmetric] pro s'_def)
  have "board s' (?r, ?c) = None" "board s' (dest_row, dest_col) \<noteq> None"
    "turn s' \<noteq> turn s" "length (move_history s') = Suc (length (move_history s))"
    using b6 t6 m6 by (simp_all add: s'_def finish_move_def)
  with mm show ?thesis by simp
qed

theorem make_move_checks_nothing_witness:
  "on_board (row (heap pos_pawns 0), col (heap pos_pawns 0)) \<and>
   on_board (3, 4) \<and>
   (3, 4) \<noteq> (row (heap pos_pawns 0), col (heap pos_pawns 0)) \<and>
   \<not> (ptype (heap pos_pawns 0) = KING \<and> \<bar>4 - col (heap pos_pawns 0)\<bar> = 2) \<and>
   (case make_move pos_pawns 0 3 4 of
      None \<Rightarrow> False
    | Some s' \<Rightarrow>
        board s' (row (heap pos_pawns 0), col (heap pos_pawns 0)) = None \<and>
        board s' (3, 4) \<noteq> None \<and>
        turn s' \<noteq> turn pos_pawns \<and>
        length (move_history s') = Suc (length (move_history pos_pawns)))"
proof -
  have h: "on_board (row (heap pos_pawns 0), col (heap pos_pawns 0))"
    "on_board (3, 4)"
    "(3, 4) \<noteq> (row (heap pos_pawns 0), col (heap pos_pawns 0))"
    "\<not> (ptype (heap pos_pawns 0) = KING \<and> \<bar>4 - col (heap pos_pawns 0)\<bar> = 2)"
    by code_simp+
  show ?thesis using h make_move_checks_nothing [OF h] by simp
qed

section \<open>Promotion\<close>

text \<open>
  C9. When a pawn that stands on the square it records, and on no other, is moved onto
  the last rank of its side (row 0 for White, row 7 for Black), \<open>make_move\<close> returns a
  state in which the destination cell holds a queen of the pawn's colour and the pawn is
  on no square of the board. The pawn is an object created before the move
  (\<open>p < next_ref s\<close>), so the new queen is another object.
\<close>

theorem promotion_to_queen:
  assumes pawn: "ptype (heap s p) = PAWN"
    and last_rank: "(color (heap s p) = WHITE \<and> dest_row = 0) \<or>
                    (color (heap s p) = BLACK \<and> dest_row = 7)"
    and dc: "0 \<le> dest_col" "dest_col < 8"
    and at: "stands_at_own_square s p"
    and only: "stands_nowhere_else s p"
    and alloc: "p < next_ref s"
  shows "case make_move s p dest_row dest_col of
           None \<Rightarrow> False
         | Some s' \<Rightarrow>
             (case board s' (dest_row, dest_col) of
                None \<Rightarrow> False
              | Some q \<Rightarrow>
                  ptype (heap s' q) = QUEEN \<and> color (heap s' q) = color (heap s p)) \<and>
             \<not> stands_on_board s' p"
proof -
  let ?r = "row (heap s p)" and ?c = "col (heap s p)"
  from at have pos: "0 \<le> ?r" "?r < 8" "0 \<le> ?c" "?c < 8"
    by (simp_all add: stands_at_own_square_def on_board_def)
  from last_rank have dr: "0 \<le> dest_row" "dest_row < 8" by auto
  have c1: "castling_step s p dest_col = Some s"
    using pawn by (simp add: castling_step_def)
  obtain s2 where s2: "en_passant_capture s p dest_row dest_col = Some s2"
    and h2: "heap s2 = heap s" and n2: "next_ref s2 = next_ref s"
    and b2: "\<And>sq. board s2 sq = Some p \<Longrightarrow> board s sq = Some p"
  proof (cases "is_en_passant_target s dest_row dest_col")
    case True
    let ?t = "s\<lparr>board := (board s)((?r, dest_col) := None)\<rparr>"
    have "en_passant_capture s p dest_row dest_col = Some ?t"
      using True pawn by (simp add: en_passant_capture_def board_set_in_range pos dc)
    moreover have "heap ?t = heap s" "next_ref ?t = next_ref s" by simp_all
    moreover have "\<And>sq. board ?t sq = Some p \<Longrightarrow> board s sq = Some p"
      by (simp split: if_splits)
    ultimately show ?thesis using that by blast
  next
    case False
    then have "en_passant_capture s p dest_row dest_col = Some s"
      by (simp add: en_passant_capture_def)
    then show ?thesis using that by blast
  qed
  define s3 where "s3 = record_en_passant s2 p dest_row dest_col"
  have h3: "heap s3 = heap s" and n3: "next_ref s3 = next_ref s"
    and b3: "board s3 = board s2"
    by (simp_all add: s3_def record_en_passant_def h2 n2)
  have cap: "board_get s3 dest_row dest_col = Some (board s2 (dest_row, dest_col))"
    by (simp add: board_get_in_range dr dc b3)
  define moved where
    "moved = (heap s p)\<lparr>row := dest_row, col := dest_col, has_moved := True\<rparr>"
  define s4 where
    "s4 = s3\<lparr>board := (board s2)((dest_row, dest_col) := Some p, (?r, ?c) := None),
             heap := (heap s)(p := moved)\<rparr>"
  have rel: "relocate s3 p dest_row dest_col = Some s4"
    by (simp add: s4_def moved_def relocate_def board_set_in_range dr dc pos h3 b3)
  have p4: "ptype (heap s4 p) = PAWN" "color (heap s4 p) = color (heap s p)"
    "row (heap s4 p) = dest_row"
    using pawn by (simp_all add: s4_def moved_def)
  have ucr: "update_castling_rights s4 (heap s4 p) = s4"
    using p4(1) by (simp add: update_castling_rights_def)
  define queen where
    "queen = \<lparr>ptype = QUEEN, color = color (heap s p), row = dest_row, col = dest_col,
               has_moved = False\<rparr>"
  define s6 where
    "s6 = s4\<lparr>heap := (heap s4)(next_ref s := queen),
             next_ref := Suc (next_ref s),
             board := (board s4)((dest_row, dest_col) := Some (next_ref s))\<rparr>"
  have n4: "next_ref s4 = next_ref s" by (simp add: s4_def n3)
  have pro: "promote s4 p dest_row dest_col = Some s6"
    using p4 last_rank
    by (simp add: s6_def queen_def promote_def new_Piece_def board_set_in_range dr dc n4)
  define s' where "s' = finish_move s6 p dest_row dest_col (board s2 (dest_row, dest_col))"
  have mm: "make_move s p dest_row dest_col = Some s'"
    by (simp add: make_move_def c1 s2 s3_def [symmetric] cap rel ucr pro s'_def)
  have bs': "board s' = (board s2)((dest_row, dest_col) := Some p, (?r, ?c) := None,
                 (dest_row, dest_col) := Some (next_ref s))"
    by (simp add: s'_def finish_move_def s6_def s4_def)
  have bd: "board s' (dest_row, dest_col) = Some (next_ref s)"
    by (simp add: bs')
  have hq: "heap s' (next_ref s) = queen"
    by (simp add: s'_def finish_move_def s6_def)
  have gone: "\<not> stands_on_board s' p"
  proof
    assume "stands_on_board s' p"
    then obtain sq where sq: "sq \<in> set all_squares" "board s' sq = Some p"
      by (auto simp: stands_on_board_def)
    from sq(2) alloc have ne: "sq \<noteq> (dest_row, dest_col)" "sq \<noteq> (?r, ?c)"
      and "board s2 sq = Some p"
      by (auto simp: bs' split: if_splits)
    then have "board s sq = Some p" using b2 by blast
    with only sq(1) have "sq = (?r, ?c)" by (simp add: stands_nowhere_else_def)
    with ne show False by simp
  qed
  from mm bd hq gone show ?thesis by (simp add: queen_def)
qed

theorem promotion_to_queen_witness:
  "ptype (heap pos_promotion 0) = PAWN \<and>
   ((color (heap pos_promotion 0) = WHITE \<and> (0::int) = 0) \<or>
    (color (heap pos_promotion 0) = BLACK \<and> (0::int) = 7)) \<and>
   (0::int) \<le> 0 \<and> (0::int) < 8 \<and>
   stands_at_own_square pos_promotion 0 \<and>
   stands_nowhere_else pos_promotion 0 \<and>
   0 < next_ref pos_promotion \<and>
   (case make_move pos_promotion 0 0 0 of
      None \<Rightarrow> False
    | Some s' \<Rightarrow>
        (case board s' (0, 0) of
           None \<Rightarrow> False
         | Some q \<Rightarrow>
             ptype (heap s' q) = QUEEN \<and>
             color (heap s' q) = color (heap pos_promotion 0)) \<and>
        \<not> stands_on_board s' 0)"
proof -
  have h: "ptype (heap pos_promotion 0) = PAWN"
    "(color (heap pos_promotion 0) = WHITE \<and> (0::int) = 0) \<or>
     (color (heap pos_promotion 0) = BLACK \<and> (0::int) = 7)"
    "(0::int) \<le> 0" "(0::int) < 8"
    "stands_at_own_square pos_promotion 0"
    "stands_nowhere_else pos_promotion 0"
    "0 < next_ref pos_promotion"
    by code_simp+
  show ?thesis using h promotion_to_queen [OF h] by simp
qed

section \<open>Legal destinations\<close>

text \<open>
  C10. On a board whose pieces record the cells that hold them, \<open>get_valid_moves\<close> of a
  piece on the board returns, leaves the state as it was, and every destination it
  returns has row and column in 0..7 and is not held by a piece of the mover's colour.
\<close>

theorem valid_moves_on_board_not_own:
  assumes agree: "coords_agree s" and on: "stands_on_board s p"
  shows "case get_valid_moves s p of
           None \<Rightarrow> False
         | Some (ms, s') \<Rightarrow>
             s' = s \<and>
             (\<forall>sq \<in> set ms. on_board sq \<and> \<not> own_side_at s (color (heap s p)) sq)"
proof -
  from on obtain sq where sq: "sq \<in> set all_squares" "board s sq = Some p"
    by (auto simp: stands_on_board_def)
  with agree have at: "(row (heap s p), col (heap s p)) = sq"
    by (fastforce simp: coords_agree_def)
  from sq(1) at have pos: "0 \<le> row (heap s p)" "row (heap s p) < 8"
      "0 \<le> col (heap s p)" "col (heap s p) < 8"
    by (auto simp: in_all_squares on_board_def)
  from sq(2) at have cell: "board s (row (heap s p), col (heap s p)) = Some p" by simp
  obtain ks where ks: "get_valid_moves s p = Some (ks, s)"
      and good: "\<forall>d \<in> set ks. good_dest s (color (heap s p)) d"
    using get_valid_moves_good [OF pos cell] by blast
  from good have "\<forall>d \<in> set ks. on_board d \<and> \<not> own_side_at s (color (heap s p)) d"
    by (simp add: good_dest_def)
  with ks show ?thesis by simp
qed

theorem valid_moves_on_board_not_own_witness:
  "coords_agree pos_pawns \<and> stands_on_board pos_pawns 1 \<and>
   legal_destinations 1 pos_pawns = Some [(5, 3)] \<and>
   (case get_valid_moves pos_pawns 1 of
      None \<Rightarrow> False
    | Some (ms, s') \<Rightarrow>
        s' = pos_pawns \<and>
        (\<forall>sq \<in> set ms.
           on_board sq \<and> \<not> own_side_at pos_pawns (color (heap pos_pawns 1)) sq))"
proof -
  have h: "coords_agree pos_pawns" "stands_on_board pos_pawns 1" by code_simp+
  have moves: "legal_destinations 1 pos_pawns = Some [(5, 3)]" by code_simp
  show ?thesis using h moves valid_moves_on_board_not_own [OF h] by simp
qed

end
